theory Spec2Isabelle
  imports Complex_Main
begin

section \<open>The mock service of \<^verbatim>\<open>mao.mock.service.js\<close>\<close>

text \<open>
  The service is one HTTP handler, \<^verbatim>\<open>helloHttp\<close>, over module-level mutable state:
  the object \<^verbatim>\<open>serviceState\<close>, the map \<^verbatim>\<open>rateLimitMap\<close> and the four circuit-breaker
  variables. The model passes that state explicitly. Every JavaScript number is taken as
  a \<open>real\<close>: clock readings are integers far below \<open>2^53\<close>, and the only computed
  non-integers (an outage end, a normal-period duration) are merely compared with
  clock readings. The readings of \<^verbatim>\<open>Date.now()\<close> and the draws of \<^verbatim>\<open>Math.random()\<close> are
  inputs of the functions that make them.
\<close>

subsection \<open>Configuration\<close>

record config_t =
  baseSuccessRate :: real
  outageChance :: real
  minOutageDuration :: real
  maxOutageDuration :: real
  slowResponseChance :: real
  minSlowDelay :: real
  maxSlowDelay :: real
  normalPeriodChance :: real
  minNormalPeriod :: real
  maxNormalPeriod :: real
  serverErrorChance :: real
  clientErrorChance :: real
  timeoutChance :: real
  circuitBreakerThreshold :: nat
  circuitBreakerWindow :: real
  circuitBreakerRecovery :: real
  circuitBreakerHalfOpenRequests :: nat
  rateLimitWindowMs :: real
  rateLimitMax :: nat

definition config :: config_t where
  "config = \<lparr>
     baseSuccessRate = 95 / 100,
     outageChance = 1 / 10000,
     minOutageDuration = 15000,
     maxOutageDuration = 45000,
     slowResponseChance = 15 / 100,
     minSlowDelay = 500,
     maxSlowDelay = 2000,
     normalPeriodChance = 2 / 1000,
     minNormalPeriod = 300000,
     maxNormalPeriod = 1800000,
     serverErrorChance = 1 / 100,
     clientErrorChance = 5 / 1000,
     timeoutChance = 2 / 1000,
     circuitBreakerThreshold = 15,
     circuitBreakerWindow = 60000,
     circuitBreakerRecovery = 20000,
     circuitBreakerHalfOpenRequests = 2,
     rateLimitWindowMs = 10000,
     rateLimitMax = 50 \<rparr>"

subsection \<open>State\<close>

datatype breaker = CLOSED | OPEN | HALF_OPEN

record serviceState_t =
  isHealthy :: bool
  lastOutageStart :: "real option"
  outageEndTime :: "real option"
  normalPeriodStart :: real
  normalPeriodDuration :: "real option"
  requestCount :: nat
  successCount :: nat
  errorCount :: nat
  averageResponseTime :: real

record rateLimitEntry =
  count :: nat
  start :: real

record state =
  serviceState :: serviceState_t
  rateLimitMap :: "string \<rightharpoonup> rateLimitEntry"
  errorWindow :: "real list"
  circuitBreakerState :: breaker
  circuitBreakerOpenTime :: "real option"
  halfOpenAttempts :: nat

text \<open>The state when the module has been loaded at clock reading \<open>t0\<close>.\<close>

definition initialState :: "real \<Rightarrow> state" where
  "initialState t0 = \<lparr>
     serviceState = \<lparr>
       isHealthy = True,
       lastOutageStart = None,
       outageEndTime = None,
       normalPeriodStart = t0,
       normalPeriodDuration = None,
       requestCount = 0,
       successCount = 0,
       errorCount = 0,
       averageResponseTime = 0 \<rparr>,
     rateLimitMap = Map.empty,
     errorWindow = [],
     circuitBreakerState = CLOSED,
     circuitBreakerOpenTime = None,
     halfOpenAttempts = 0 \<rparr>"

subsection \<open>JavaScript coercions\<close>

text \<open>
  A nullable number in a condition is truthy when it is neither \<^verbatim>\<open>null\<close> nor \<open>0\<close>;
  in arithmetic \<^verbatim>\<open>null\<close> counts as \<open>0\<close>.
\<close>

definition truthyNum :: "real option \<Rightarrow> bool" where
  "truthyNum x = (case x of None \<Rightarrow> False | Some v \<Rightarrow> v \<noteq> 0)"

definition toNumber :: "real option \<Rightarrow> real" where
  "toNumber x = (case x of None \<Rightarrow> 0 | Some v \<Rightarrow> v)"

subsection \<open>Rate limiter\<close>

text \<open>\<^verbatim>\<open>checkRateLimit(ip)\<close> returns \<^verbatim>\<open>true\<close> when the request is over the limit.\<close>

definition checkRateLimit :: "real \<Rightarrow> string \<Rightarrow> state \<Rightarrow> bool \<times> state" where
  "checkRateLimit now ip s =
     (case rateLimitMap s ip of
        None \<Rightarrow>
          (False, s\<lparr>rateLimitMap := (rateLimitMap s)(ip \<mapsto> \<lparr>count = 1, start = now\<rparr>)\<rparr>)
      | Some entry \<Rightarrow>
          if now - start entry > rateLimitWindowMs config
          then (False, s\<lparr>rateLimitMap := (rateLimitMap s)(ip \<mapsto> \<lparr>count = 1, start = now\<rparr>)\<rparr>)
          else (count entry + 1 > rateLimitMax config,
                s\<lparr>rateLimitMap := (rateLimitMap s)(ip \<mapsto> entry\<lparr>count := count entry + 1\<rparr>)\<rparr>))"

text \<open>A run of calls, each with its clock reading and client key, oldest first.\<close>

fun checkRateLimits :: "(real \<times> string) list \<Rightarrow> state \<Rightarrow> bool list \<times> state" where
  "checkRateLimits [] s = ([], s)"
| "checkRateLimits ((now, ip) # evs) s =
     (let (b, s1) = checkRateLimit now ip s;
          (bs, s2) = checkRateLimits evs s1
      in (b # bs, s2))"

subsection \<open>Outage and normal-period schedulers\<close>

text \<open>
  \<open>r1\<close> is the draw compared with the chance, \<open>r2\<close> the draw that sizes the window.
  Neither is looked at on the paths where the source does not call \<^verbatim>\<open>Math.random()\<close>.
\<close>

definition checkServiceAvailability :: "real \<Rightarrow> real \<Rightarrow> real \<Rightarrow> state \<Rightarrow> bool \<times> state" where
  "checkServiceAvailability now r1 r2 s =
     (let ss = serviceState s in
      if truthyNum (outageEndTime ss) \<and> now < toNumber (outageEndTime ss) then (False, s)
      else
        let ss1 = (if truthyNum (outageEndTime ss) \<and> now \<ge> toNumber (outageEndTime ss)
                   then ss\<lparr>isHealthy := True, outageEndTime := None, lastOutageStart := None\<rparr>
                   else ss)
        in if isHealthy ss1 \<and> r1 < outageChance config
           then
             let outageStart = now;
                 outageDuration = r2 * (maxOutageDuration config - minOutageDuration config)
                                  + minOutageDuration config
             in (False, s\<lparr>serviceState := ss1\<lparr>isHealthy := False,
                                                lastOutageStart := Some outageStart,
                                                outageEndTime := Some (outageStart + outageDuration)\<rparr>\<rparr>)
           else (isHealthy ss1, s\<lparr>serviceState := ss1\<rparr>))"

definition isInNormalPeriod :: "real \<Rightarrow> real \<Rightarrow> real \<Rightarrow> state \<Rightarrow> bool \<times> state" where
  "isInNormalPeriod now r1 r2 s =
     (let ss = serviceState s;
          ss1 = (if truthyNum (normalPeriodDuration ss)
                    \<and> now - normalPeriodStart ss > toNumber (normalPeriodDuration ss)
                 then ss\<lparr>normalPeriodDuration := None\<rparr>
                 else ss);
          ss2 = (if \<not> truthyNum (normalPeriodDuration ss1) \<and> r1 < normalPeriodChance config
                 then ss1\<lparr>normalPeriodStart := now,
                          normalPeriodDuration :=
                            Some (r2 * (maxNormalPeriod config - minNormalPeriod config)
                                  + minNormalPeriod config)\<rparr>
                 else ss1)
      in (truthyNum (normalPeriodDuration ss2), s\<lparr>serviceState := ss2\<rparr>))"

subsection \<open>Circuit breaker\<close>

definition isCircuitBreakerOpen :: "real \<Rightarrow> state \<Rightarrow> bool \<times> state" where
  "isCircuitBreakerOpen now s =
     (let s1 = s\<lparr>errorWindow :=
                   filter (\<lambda>timestamp. now - timestamp < circuitBreakerWindow config) (errorWindow s)\<rparr>
      in case circuitBreakerState s1 of
           CLOSED \<Rightarrow>
             if length (errorWindow s1) \<ge> circuitBreakerThreshold config
             then (True, s1\<lparr>circuitBreakerState := OPEN, circuitBreakerOpenTime := Some now\<rparr>)
             else (False, s1)
         | OPEN \<Rightarrow>
             if now - toNumber (circuitBreakerOpenTime s1) \<ge> circuitBreakerRecovery config
             then (False, s1\<lparr>circuitBreakerState := HALF_OPEN, halfOpenAttempts := 0\<rparr>)
             else (True, s1)
         | HALF_OPEN \<Rightarrow> (False, s1))"

definition recordError :: "real \<Rightarrow> state \<Rightarrow> state" where
  "recordError now s =
     (let s1 = s\<lparr>errorWindow := errorWindow s @ [now],
                 serviceState := (serviceState s)\<lparr>errorCount := errorCount (serviceState s) + 1\<rparr>\<rparr>
      in if circuitBreakerState s1 = HALF_OPEN
         then s1\<lparr>circuitBreakerState := OPEN, circuitBreakerOpenTime := Some now, halfOpenAttempts := 0\<rparr>
         else s1)"

text \<open>\<^verbatim>\<open>recordSuccess\<close> reads the clock only in the branch that closes the breaker.\<close>

definition recordSuccess :: "real \<Rightarrow> state \<Rightarrow> state" where
  "recordSuccess now s =
     (let s1 = s\<lparr>serviceState := (serviceState s)\<lparr>successCount := successCount (serviceState s) + 1\<rparr>\<rparr>
      in if circuitBreakerState s1 = HALF_OPEN
         then
           let s2 = s1\<lparr>halfOpenAttempts := halfOpenAttempts s1 + 1\<rparr>
           in if halfOpenAttempts s2 \<ge> circuitBreakerHalfOpenRequests config
              then
                let cutoff = now - circuitBreakerWindow config / 2
                in s2\<lparr>circuitBreakerState := CLOSED,
                      halfOpenAttempts := 0,
                      errorWindow := filter (\<lambda>timestamp. timestamp > cutoff) (errorWindow s2)\<rparr>
              else s2
         else s1)"

subsection \<open>Error injection and delay\<close>

datatype error_kind =
    rate_limit | service_unavailable | circuit_breaker_open
  | server_error | client_error | timeout | network_failure
  | validation_error | unexpected_error

text \<open>\<^verbatim>\<open>simulateError\<close> returns \<^verbatim>\<open>{status, error, type}\<close> or \<^verbatim>\<open>null\<close>; \<open>rand\<close> is its draw.\<close>

definition simulateError :: "real \<Rightarrow> (nat \<times> string \<times> error_kind) option" where
  "simulateError rand =
     (if rand < serverErrorChance config
      then Some (500, ''Internal Server Error'', server_error)
      else if rand < serverErrorChance config + clientErrorChance config
      then Some (400, ''Bad Request'', client_error)
      else if rand < serverErrorChance config + clientErrorChance config + timeoutChance config
      then Some (408, ''Request Timeout'', timeout)
      else None)"

text \<open>
  \<^verbatim>\<open>addDelay\<close> returns the delay it has waited for: \<open>r1\<close> decides whether there is one,
  \<open>r2\<close> sizes it.
\<close>

definition addDelay :: "real \<Rightarrow> real \<Rightarrow> real" where
  "addDelay r1 r2 =
     (if r1 < slowResponseChance config
      then r2 * (maxSlowDelay config - minSlowDelay config) + minSlowDelay config
      else 0)"

subsection \<open>Requests and responses\<close>

text \<open>
  Of a request the handler reads \<^verbatim>\<open>req.method\<close> (the field \<open>httpMethod\<close>), \<^verbatim>\<open>req.url\<close>
  and \<^verbatim>\<open>req.path\<close>, the \<^verbatim>\<open>x-forwarded-for\<close> header, the peer address, the parsed body
  and the parsed query. \<open>None\<close> is \<^verbatim>\<open>undefined\<close>. A body that is not an object has no
  fields. Of a field value only the truthiness and the identity are used. The
  objects \<^verbatim>\<open>req.headers\<close> and \<^verbatim>\<open>req.connection\<close> are taken to exist, as the framework
  provides them.
\<close>

datatype jsval = JNull | JBool bool | JNum real | JStr string | JObject

fun truthy :: "jsval option \<Rightarrow> bool" where
  "truthy None = False"
| "truthy (Some JNull) = False"
| "truthy (Some (JBool b)) = b"
| "truthy (Some (JNum n)) = (n \<noteq> 0)"
| "truthy (Some (JStr t)) = (t \<noteq> [])"
| "truthy (Some JObject) = True"

record request =
  httpMethod :: string
  url :: "string option"
  path :: "string option"
  xForwardedFor :: "string option"
  remoteAddress :: "string option"
  body :: "(string \<rightharpoonup> jsval) option"
  query :: "(string \<rightharpoonup> jsval) option"

text \<open>\<^verbatim>\<open>a || b\<close> on a possibly undefined string: the empty string is falsy.\<close>

definition orElse :: "string option \<Rightarrow> string \<Rightarrow> string" where
  "orElse a b = (case a of None \<Rightarrow> b | Some x \<Rightarrow> if x \<noteq> [] then x else b)"

text \<open>
  The three constants the handler computes from the request:
  \<^verbatim>\<open>ip = req.headers['x-forwarded-for'] || req.connection.remoteAddress || 'unknown'\<close>,
  \<^verbatim>\<open>path = req.url || req.path || '/'\<close> and \<^verbatim>\<open>requestData = req.body || {}\<close>.
\<close>

definition clientIp :: "request \<Rightarrow> string" where
  "clientIp req = orElse (xForwardedFor req) (orElse (remoteAddress req) ''unknown'')"

definition requestPath :: "request \<Rightarrow> string" where
  "requestPath req = orElse (url req) (orElse (path req) ''/'')"

definition requestData :: "request \<Rightarrow> (string \<rightharpoonup> jsval)" where
  "requestData req = (case body req of None \<Rightarrow> Map.empty | Some b \<Rightarrow> b)"

text \<open>
  The response: the status, the \<^verbatim>\<open>error_type\<close> of an error body, and the fields of the
  body that depend on the state or on the request. \<open>BreakerOpenBody\<close> and \<open>ResetBody\<close>
  carry \<^verbatim>\<open>circuit_breaker_state\<close>; \<open>HealthBody\<close> carries \<^verbatim>\<open>total_requests\<close>,
  \<^verbatim>\<open>successful_requests\<close>, \<^verbatim>\<open>failed_requests\<close>, \<^verbatim>\<open>in_normal_period\<close>, \<^verbatim>\<open>circuit_breaker_state\<close>,
  \<^verbatim>\<open>circuit_breaker_errors\<close> and \<^verbatim>\<open>half_open_attempts\<close>; the hello bodies carry the name;
  the bodies of the other endpoints carry \<^verbatim>\<open>artificial_delay_ms\<close> and
  \<^verbatim>\<open>in_normal_period\<close>. Request ids, timestamps and measured times are left out.
\<close>

datatype payload =
    EmptyBody
  | ErrorBody
  | BreakerOpenBody breaker
  | HealthBody nat nat nat bool breaker nat nat
  | ResetBody breaker
  | GetHelloBody jsval real bool
  | GetDefaultBody real bool
  | PostHelloBody jsval real bool
  | PostGenericBody real bool
  | OtherMethodBody string real bool

record response =
  status :: nat
  error_type :: "error_kind option"
  payload :: payload

text \<open>
  What one run of the handler reads from the clock and from the random source, one
  field for each call site that touches the state or decides a branch.
\<close>

record env =
  requestStart :: real
  t_rateLimit :: real
  t_availability :: real
  t_breaker :: real
  t_normalPeriod :: real
  t_recordSuccess :: real
  t_recordError :: real
  t_response :: real
  r_outage :: real
  r_outageDuration :: real
  r_slow :: real
  r_slowDelay :: real
  r_normalPeriod :: real
  r_normalDuration :: real
  r_simulateError :: real
  r_drop :: real

subsection \<open>The handler\<close>

definition errorResponse :: "nat \<Rightarrow> error_kind \<Rightarrow> response" where
  "errorResponse code k = \<lparr>status = code, error_type = Some k, payload = ErrorBody\<rparr>"

definition updateAverage :: "real \<Rightarrow> state \<Rightarrow> state" where
  "updateAverage responseTime s =
     (let ss = serviceState s
      in s\<lparr>serviceState := ss\<lparr>averageResponseTime :=
             (averageResponseTime ss * (real (requestCount ss) - 1) + responseTime)
               / real (requestCount ss)\<rparr>\<rparr>)"

text \<open>
  The two gates inside the \<^verbatim>\<open>try\<close> block: the outage check, then the breaker check.
  \<open>Some\<close> is the response of a rejected request.
\<close>

definition admission :: "env \<Rightarrow> state \<Rightarrow> response option \<times> state" where
  "admission e s =
     (let (available, s1) = checkServiceAvailability (t_availability e) (r_outage e) (r_outageDuration e) s
      in if \<not> available
         then (Some (errorResponse 503 service_unavailable), recordError (t_recordError e) s1)
         else
           let (isOpen, s2) = isCircuitBreakerOpen (t_breaker e) s1
           in if isOpen
              then
                let s3 = recordError (t_recordError e) s2
                in (Some \<lparr>status = 503, error_type = Some circuit_breaker_open,
                          payload = BreakerOpenBody (circuitBreakerState s3)\<rparr>, s3)
              else (None, s2))"

text \<open>
  The endpoints, entered after \<^verbatim>\<open>recordSuccess()\<close>. \<open>Inl ()\<close> is the \<^verbatim>\<open>TypeError\<close> that
  \<^verbatim>\<open>req.query.name\<close> throws on an undefined query; the state is the one reached
  when it is thrown.
\<close>

definition dispatch :: "env \<Rightarrow> request \<Rightarrow> real \<Rightarrow> bool \<Rightarrow> state \<Rightarrow> (unit + response) \<times> state" where
  "dispatch e req artificialDelay inNormalPeriod s =
     (let p = requestPath req;
          responseTime = t_response e - requestStart e
      in if p = ''/'' \<or> p = ''/health''
         then
           let s1 = updateAverage responseTime s
           in (Inr \<lparr>status = 200, error_type = None,
                    payload = HealthBody (requestCount (serviceState s1))
                                (successCount (serviceState s1)) (errorCount (serviceState s1))
                                inNormalPeriod (circuitBreakerState s1)
                                (length (errorWindow s1)) (halfOpenAttempts s1)\<rparr>, s1)
         else if p = ''/reset-circuit-breaker'' \<and> httpMethod req = ''POST''
         then
           let s1 = s\<lparr>circuitBreakerState := CLOSED, circuitBreakerOpenTime := None,
                      halfOpenAttempts := 0, errorWindow := []\<rparr>
           in (Inr \<lparr>status = 200, error_type = None,
                    payload = ResetBody (circuitBreakerState s1)\<rparr>, s1)
         else if httpMethod req = ''GET''
         then
           let s1 = updateAverage responseTime s
           in (case query req of
                 None \<Rightarrow> (Inl (), s1)
               | Some q \<Rightarrow>
                   if truthy (q ''name'')
                   then (Inr \<lparr>status = 200, error_type = None,
                             payload = GetHelloBody (the (q ''name'')) artificialDelay inNormalPeriod\<rparr>, s1)
                   else (Inr \<lparr>status = 200, error_type = None,
                             payload = GetDefaultBody artificialDelay inNormalPeriod\<rparr>, s1))
         else if httpMethod req = ''POST''
         then
           let s1 = updateAverage responseTime s
           in if p = ''/hello'' \<and> \<not> truthy (requestData req ''name'')
              then (Inr (errorResponse 400 validation_error), recordError (t_recordError e) s1)
              else if truthy (requestData req ''name'')
              then (Inr \<lparr>status = 200, error_type = None,
                        payload = PostHelloBody (the (requestData req ''name'')) artificialDelay inNormalPeriod\<rparr>, s1)
              else (Inr \<lparr>status = 200, error_type = None,
                        payload = PostGenericBody artificialDelay inNormalPeriod\<rparr>, s1)
         else
           let s1 = updateAverage responseTime s
           in (Inr \<lparr>status = 200, error_type = None,
                    payload = OtherMethodBody (httpMethod req) artificialDelay inNormalPeriod\<rparr>, s1))"

text \<open>
  From the artificial delay to the endpoint: the normal-period check, the injected
  errors and the drop (both skipped in a normal period), then \<^verbatim>\<open>recordSuccess()\<close>.
\<close>

definition completion :: "env \<Rightarrow> request \<Rightarrow> state \<Rightarrow> (unit + response) \<times> state" where
  "completion e req s =
     (let artificialDelay = addDelay (r_slow e) (r_slowDelay e);
          (inNormalPeriod, s1) = isInNormalPeriod (t_normalPeriod e) (r_normalPeriod e) (r_normalDuration e) s;
          errorScenario = (if inNormalPeriod then None else simulateError (r_simulateError e))
      in case errorScenario of
           Some (code, msg, k) \<Rightarrow> (Inr (errorResponse code k), recordError (t_recordError e) s1)
         | None \<Rightarrow>
             if \<not> inNormalPeriod \<and> r_drop e > baseSuccessRate config
             then (Inr (errorResponse 504 network_failure), recordError (t_recordError e) s1)
             else dispatch e req artificialDelay inNormalPeriod (recordSuccess (t_recordSuccess e) s1))"

text \<open>
  The handler \<^verbatim>\<open>helloHttp\<close>, run without another request in between (it suspends
  only at \<^verbatim>\<open>await addDelay()\<close>, between \<open>admission\<close> and the rest). The \<^verbatim>\<open>catch\<close> clause
  turns a thrown error into the 500 \<^verbatim>\<open>unexpected_error\<close> response.
\<close>

definition helloHttp :: "env \<Rightarrow> request \<Rightarrow> state \<Rightarrow> response \<times> state" where
  "helloHttp e req s0 =
     (let s = s0\<lparr>serviceState := (serviceState s0)\<lparr>requestCount := requestCount (serviceState s0) + 1\<rparr>\<rparr>
      in if httpMethod req = ''OPTIONS''
         then (\<lparr>status = 204, error_type = None, payload = EmptyBody\<rparr>, s)
         else
           let ip = clientIp req;
               (limited, s1) = checkRateLimit (t_rateLimit e) ip s
           in if limited
              then (errorResponse 429 rate_limit, recordError (t_recordError e) s1)
              else
                let (outcome, s2) =
                      (case admission e s1 of
                         (Some rejected, s') \<Rightarrow> (Inr rejected, s')
                       | (None, s') \<Rightarrow> completion e req s')
                in case outcome of
                     Inr resp \<Rightarrow> (resp, s2)
                   | Inl _ \<Rightarrow> (errorResponse 500 unexpected_error, recordError (t_recordError e) s2))"

subsection \<open>Runs of calls\<close>

text \<open>
  What happens to the breaker while it probes: breaker checks and recorded successes,
  each with its clock reading, oldest first.
\<close>

datatype breakerEvent = Check real | Success real

fun isSuccess :: "breakerEvent \<Rightarrow> bool" where
  "isSuccess (Success now) = True"
| "isSuccess (Check now) = False"

fun breakerRun :: "breakerEvent list \<Rightarrow> state \<Rightarrow> state" where
  "breakerRun [] s = s"
| "breakerRun (Check now # evs) s = breakerRun evs (snd (isCircuitBreakerOpen now s))"
| "breakerRun (Success now # evs) s = breakerRun evs (recordSuccess now s)"

subsection \<open>Reachable states\<close>

text \<open>
  The states the module can be in: the loaded state, and what any of the functions
  that touch the state makes of a reachable state. The handler suspends at its
  \<^verbatim>\<open>await\<close>, so the runs of several requests can interleave. Every change to the
  state is made by one of the functions, by the endpoints or by the count of the
  request, so taking these as steps covers the interleavings; whole requests are
  steps too.
\<close>

inductive reachable :: "state \<Rightarrow> bool" where
  loaded: "reachable (initialState t0)"
| rateLimitStep: "reachable s \<Longrightarrow> reachable (snd (checkRateLimit now ip s))"
| availabilityStep: "reachable s \<Longrightarrow> reachable (snd (checkServiceAvailability now r1 r2 s))"
| normalPeriodStep: "reachable s \<Longrightarrow> reachable (snd (isInNormalPeriod now r1 r2 s))"
| breakerStep: "reachable s \<Longrightarrow> reachable (snd (isCircuitBreakerOpen now s))"
| errorStep: "reachable s \<Longrightarrow> reachable (recordError now s)"
| successStep: "reachable s \<Longrightarrow> reachable (recordSuccess now s)"
| endpointStep: "reachable s \<Longrightarrow> reachable (snd (dispatch e req artificialDelay inNormalPeriod s))"
| countStep: "reachable s \<Longrightarrow>
    reachable (s\<lparr>serviceState := (serviceState s)\<lparr>requestCount := requestCount (serviceState s) + 1\<rparr>\<rparr>)"
| requestStep: "reachable s \<Longrightarrow> reachable (snd (helloHttp e req s))"

subsection \<open>Observations on a state\<close>

text \<open>The three counters of \<^verbatim>\<open>serviceState\<close>: requests, successes, errors.\<close>

definition counters :: "state \<Rightarrow> nat \<times> nat \<times> nat" where
  "counters s = (requestCount (serviceState s), successCount (serviceState s), errorCount (serviceState s))"

text \<open>The error window as \<^verbatim>\<open>isCircuitBreakerOpen\<close> leaves it: entries of age below the window.\<close>

abbreviation pruned :: "real \<Rightarrow> state \<Rightarrow> real list" where
  "pruned now s \<equiv> filter (\<lambda>timestamp. now - timestamp < circuitBreakerWindow config) (errorWindow s)"

text \<open>An open breaker has the reading at which it opened.\<close>

definition openTimeSet :: "state \<Rightarrow> bool" where
  "openTimeSet s = (circuitBreakerState s = OPEN \<longrightarrow> circuitBreakerOpenTime s \<noteq> None)"

text \<open>The state once an expired outage window has been cleared.\<close>

definition outageCleared :: "state \<Rightarrow> state" where
  "outageCleared s =
     s\<lparr>serviceState := (serviceState s)\<lparr>isHealthy := True, outageEndTime := None, lastOutageStart := None\<rparr>\<rparr>"

text \<open>The error window of \<open>s'\<close> holds entries of the window of \<open>s\<close> only, in their order.\<close>

definition windowKept :: "state \<Rightarrow> state \<Rightarrow> bool" where
  "windowKept s s' = (\<exists>P. errorWindow s' = filter P (errorWindow s))"


subsection \<open>The wording of the specification\<close>

text \<open>
  The spec's wording of what closing the breaker does to the error window, for
  comparison: the newest half, cut at the age \<^verbatim>\<open>circuitBreakerWindow / 2\<close>, is discarded
  and the rest is retained.
\<close>

definition spec_discardNewestHalf :: "real \<Rightarrow> real list \<Rightarrow> real list" where
  "spec_discardNewestHalf now w = filter (\<lambda>timestamp. \<not> timestamp > now - circuitBreakerWindow config / 2) w"

subsection \<open>Examples\<close>

text \<open>
  A run in which every clock reading is \<open>t\<close> and every draw is \<open>1/2\<close>: no outage
  starts, no delay, no normal period starts, no error is injected, nothing is dropped.
\<close>

definition quietEnv :: "real \<Rightarrow> env" where
  "quietEnv t = \<lparr>requestStart = t, t_rateLimit = t, t_availability = t, t_breaker = t,
     t_normalPeriod = t, t_recordSuccess = t, t_recordError = t, t_response = t,
     r_outage = 1 / 2, r_outageDuration = 1 / 2, r_slow = 1 / 2, r_slowDelay = 1 / 2,
     r_normalPeriod = 1 / 2, r_normalDuration = 1 / 2, r_simulateError = 1 / 2, r_drop = 1 / 2\<rparr>"

text \<open>Example requests, all from the peer \<open>10.0.0.7\<close>.\<close>

definition optionsRequest :: request where
  "optionsRequest = \<lparr>httpMethod = ''OPTIONS'', url = Some ''/hello'', path = Some ''/hello'',
     xForwardedFor = None, remoteAddress = Some ''10.0.0.7'', body = None, query = Some Map.empty\<rparr>"

definition resetRequest :: request where
  "resetRequest = \<lparr>httpMethod = ''POST'', url = Some ''/reset-circuit-breaker'',
     path = Some ''/reset-circuit-breaker'',
     xForwardedFor = None, remoteAddress = Some ''10.0.0.7'', body = None, query = Some Map.empty\<rparr>"

definition helloWithoutName :: request where
  "helloWithoutName = \<lparr>httpMethod = ''POST'', url = Some ''/hello'', path = Some ''/hello'',
     xForwardedFor = None, remoteAddress = Some ''10.0.0.7'',
     body = Some Map.empty, query = Some Map.empty\<rparr>"

definition healthRequest :: request where
  "healthRequest = \<lparr>httpMethod = ''GET'', url = Some ''/health'', path = Some ''/health'',
     xForwardedFor = None, remoteAddress = Some ''10.0.0.7'', body = None, query = Some Map.empty\<rparr>"

text \<open>
  The example states are built by running the code from the loaded state. First a
  client that has used up its window: fifty calls of the rate limiter at reading \<open>0\<close>.
\<close>

definition busyState :: state where
  "busyState = ((\<lambda>s. snd (checkRateLimit 0 ''10.0.0.7'' s)) ^^ 50) (initialState 0)"

text \<open>Fifteen errors recorded at reading \<open>1000\<close>, the breaker not yet consulted.\<close>

definition trippedState :: state where
  "trippedState = (recordError 1000 ^^ 15) (initialState 0)"

text \<open>The breaker, consulted at reading \<open>2000\<close>, has opened.\<close>

definition openState :: state where
  "openState = snd (isCircuitBreakerOpen 2000 trippedState)"

text \<open>
  The breaker just moved to half-open, with an old and a recent error in the window:
  fourteen errors at reading \<open>0\<close> and one at \<open>10000\<close>, the check at \<open>10000\<close> that opens
  the breaker, an error recorded at \<open>50000\<close> while it is open (a rate-limited
  request does not consult the breaker), and the check at \<open>61000\<close>, which drops the
  errors of reading \<open>0\<close> and moves to HALF_OPEN.
\<close>

definition halfOpenState :: state where
  "halfOpenState =
     snd (isCircuitBreakerOpen 61000
       (recordError 50000
         (snd (isCircuitBreakerOpen 10000
           (recordError 10000 ((recordError 0 ^^ 14) (initialState 0)))))))"

text \<open>The service as the outage check leaves it when it starts an outage at reading \<open>1000\<close>.\<close>

definition outageState :: state where
  "outageState = snd (checkServiceAvailability 1000 (1 / 20000) (1 / 2) (initialState 0))"

text \<open>The service in a normal period of ten minutes that started at reading \<open>0\<close>.\<close>

definition normalState :: state where
  "normalState = snd (isInNormalPeriod 0 (1 / 1000) (1 / 5) (initialState 0))"

section \<open>Properties\<close>

subsection \<open>The example states\<close>

text \<open>Calls of one client at one reading, from the loaded state, count up.\<close>

lemma rateLimit_run:
  "((\<lambda>s. snd (checkRateLimit 0 ip s)) ^^ Suc n) (initialState 0)
     = (initialState 0)\<lparr>rateLimitMap := [ip \<mapsto> \<lparr>count = Suc n, start = 0\<rparr>]\<rparr>"
proof (induction n)
  case 0
  show ?case by (simp add: checkRateLimit_def initialState_def fun_upd_def)
next
  case (Suc n)
  have w: "\<not> (0::real) - 0 > rateLimitWindowMs config" by (simp add: config_def)
  have "((\<lambda>s. snd (checkRateLimit 0 ip s)) ^^ Suc (Suc n)) (initialState 0)
      = snd (checkRateLimit 0 ip ((initialState 0)\<lparr>rateLimitMap := [ip \<mapsto> \<lparr>count = Suc n, start = 0\<rparr>]\<rparr>))"
    by (subst funpow.simps(2)) (simp only: o_apply Suc)
  also have "\<dots> = (initialState 0)\<lparr>rateLimitMap := [ip \<mapsto> \<lparr>count = Suc (Suc n), start = 0\<rparr>]\<rparr>"
    using w by (simp add: checkRateLimit_def fun_upd_def fun_eq_iff)
  finally show ?case .
qed

lemma busyState_eq:
  "busyState = (initialState 0)\<lparr>rateLimitMap := [''10.0.0.7'' \<mapsto> \<lparr>count = 50, start = 0\<rparr>]\<rparr>"
  using rateLimit_run [where ip = "''10.0.0.7''" and n = 49] by (simp add: busyState_def)

lemma trippedState_eq:
  "trippedState = (initialState 0)
     \<lparr>serviceState := (serviceState (initialState 0))\<lparr>errorCount := 15\<rparr>,
      errorWindow := replicate 15 1000\<rparr>"
  by (simp add: trippedState_def eval_nat_numeral recordError_def initialState_def Let_def)

lemma openState_eq:
  "openState = trippedState\<lparr>circuitBreakerState := OPEN, circuitBreakerOpenTime := Some 2000\<rparr>"
  by (simp add: openState_def trippedState_eq isCircuitBreakerOpen_def initialState_def config_def Let_def)

lemma halfOpenState_eq:
  "halfOpenState = (initialState 0)
     \<lparr>serviceState := (serviceState (initialState 0))\<lparr>errorCount := 16\<rparr>,
      errorWindow := [10000, 50000],
      circuitBreakerState := HALF_OPEN, circuitBreakerOpenTime := Some 10000, halfOpenAttempts := 0\<rparr>"
  by (simp add: halfOpenState_def eval_nat_numeral recordError_def isCircuitBreakerOpen_def
        initialState_def config_def toNumber_def Let_def)

subsection \<open>Rate limiter\<close>

lemma rateLimitMax_pos: "0 < rateLimitMax config"
  by (simp add: config_def)

lemma checkRateLimit_fresh:
  "rateLimitMap s ip = None
     \<or> (\<exists>en. rateLimitMap s ip = Some en \<and> now - start en > rateLimitWindowMs config)
   \<Longrightarrow> checkRateLimit now ip s
       = (False, s\<lparr>rateLimitMap := (rateLimitMap s)(ip \<mapsto> \<lparr>count = 1, start = now\<rparr>)\<rparr>)"
  by (auto simp: checkRateLimit_def)

lemma checkRateLimit_within:
  "rateLimitMap s ip = Some en \<Longrightarrow> \<not> now - start en > rateLimitWindowMs config
   \<Longrightarrow> checkRateLimit now ip s
       = (count en + 1 > rateLimitMax config,
          s\<lparr>rateLimitMap := (rateLimitMap s)(ip \<mapsto> en\<lparr>count := count en + 1\<rparr>)\<rparr>)"
  by (simp add: checkRateLimit_def)

lemma checkRateLimit_other:
  "k \<noteq> ip \<Longrightarrow> rateLimitMap (snd (checkRateLimit now k s)) ip = rateLimitMap s ip"
  by (auto simp: checkRateLimit_def split: option.splits)

lemma checkRateLimit_denied_entry:
  "checkRateLimit now ip s = (True, s1)
   \<Longrightarrow> \<exists>en. rateLimitMap s1 ip = Some en \<and> rateLimitMax config < count en
            \<and> \<not> now - start en > rateLimitWindowMs config"
  by (auto simp: checkRateLimit_def split: option.splits if_splits)

text \<open>Calls of one client inside its window only count up.\<close>

lemma checkRateLimits_same_key:
  "rateLimitMap s ip = Some en \<Longrightarrow> \<forall>t\<in>set ts. t - start en \<le> rateLimitWindowMs config
   \<Longrightarrow> checkRateLimits (map (\<lambda>t. (t, ip)) ts) s
       = (map (\<lambda>i. count en + 1 + i > rateLimitMax config) [0..<length ts],
          s\<lparr>rateLimitMap := (rateLimitMap s)(ip \<mapsto> en\<lparr>count := count en + length ts\<rparr>)\<rparr>)"
proof (induction ts arbitrary: s en)
  case Nil
  then show ?case by (simp add: map_upd_triv)
next
  case (Cons t ts)
  let ?en1 = "en\<lparr>count := count en + 1\<rparr>"
  let ?s1 = "s\<lparr>rateLimitMap := (rateLimitMap s)(ip \<mapsto> ?en1)\<rparr>"
  from Cons.prems have step: "checkRateLimit t ip s = (count en + 1 > rateLimitMax config, ?s1)"
    by (simp add: checkRateLimit_within)
  have "rateLimitMap ?s1 ip = Some ?en1" by simp
  moreover from Cons.prems have "\<forall>u\<in>set ts. u - start ?en1 \<le> rateLimitWindowMs config" by simp
  ultimately have IH: "checkRateLimits (map (\<lambda>t. (t, ip)) ts) ?s1
       = (map (\<lambda>i. count ?en1 + 1 + i > rateLimitMax config) [0..<length ts],
          ?s1\<lparr>rateLimitMap := (rateLimitMap ?s1)(ip \<mapsto> ?en1\<lparr>count := count ?en1 + length ts\<rparr>)\<rparr>)"
    by (rule Cons.IH)
  have IH': "checkRateLimits (map (\<lambda>t. (t, ip)) ts) ?s1
       = (map (\<lambda>i. count en + 1 + Suc i > rateLimitMax config) [0..<length ts],
          s\<lparr>rateLimitMap := (rateLimitMap s)(ip \<mapsto> en\<lparr>count := count en + length (t # ts)\<rparr>)\<rparr>)"
    using IH by simp
  show ?case
    by (simp only: list.map checkRateLimits.simps step IH' Let_def prod.case)
       (simp add: map_upt_Suc fun_upd_def del: upt_Suc)
qed

text \<open>
  Once a client is over the limit, its calls inside the window are all denied, whatever
  other clients do in between, and the window start stays.
\<close>

lemma checkRateLimits_denied_run:
  "rateLimitMap s ip = Some en \<Longrightarrow> rateLimitMax config < count en
   \<Longrightarrow> \<forall>ev\<in>set evs. snd ev = ip \<longrightarrow> fst ev - start en \<le> rateLimitWindowMs config
   \<Longrightarrow> checkRateLimits evs s = (bs, s2)
   \<Longrightarrow> length bs = length evs
       \<and> (\<forall>i<length evs. snd (evs ! i) = ip \<longrightarrow> bs ! i)
       \<and> (\<exists>en2. rateLimitMap s2 ip = Some en2 \<and> start en2 = start en \<and> count en \<le> count en2)"
proof (induction evs arbitrary: s en bs s2)
  case Nil
  then show ?case by simp
next
  case (Cons ev evs)
  obtain t k where ev: "ev = (t, k)" by (cases ev)
  obtain b s1 where step: "checkRateLimit t k s = (b, s1)" by (cases "checkRateLimit t k s")
  obtain bs' s' where rest: "checkRateLimits evs s1 = (bs', s')" by (cases "checkRateLimits evs s1")
  from Cons.prems(4) ev step rest have res: "bs = b # bs'" "s2 = s'" by auto
  show ?case
  proof (cases "k = ip")
    case True
    from Cons.prems(3) ev True have "\<not> t - start en > rateLimitWindowMs config" by simp
    with Cons.prems(1) True step
    have b: "b" and s1: "s1 = s\<lparr>rateLimitMap := (rateLimitMap s)(ip \<mapsto> en\<lparr>count := count en + 1\<rparr>)\<rparr>"
      using Cons.prems(2) by (simp_all add: checkRateLimit_within)
    let ?en1 = "en\<lparr>count := count en + 1\<rparr>"
    have "rateLimitMap s1 ip = Some ?en1" by (simp add: s1)
    moreover have "rateLimitMax config < count ?en1" using Cons.prems(2) by simp
    moreover have "\<forall>ev\<in>set evs. snd ev = ip \<longrightarrow> fst ev - start ?en1 \<le> rateLimitWindowMs config"
      using Cons.prems(3) by simp
    ultimately have IH: "length bs' = length evs
       \<and> (\<forall>i<length evs. snd (evs ! i) = ip \<longrightarrow> bs' ! i)
       \<and> (\<exists>en2. rateLimitMap s' ip = Some en2 \<and> start en2 = start ?en1 \<and> count ?en1 \<le> count en2)"
      using rest by (rule Cons.IH)
    then show ?thesis
      using b res by (auto simp: nth_Cons split: nat.splits)
  next
    case False
    have "rateLimitMap s1 ip = rateLimitMap s ip"
      using checkRateLimit_other [OF False, of t s] step by simp
    then have e1: "rateLimitMap s1 ip = Some en" using Cons.prems(1) by simp
    have w1: "\<forall>ev\<in>set evs. snd ev = ip \<longrightarrow> fst ev - start en \<le> rateLimitWindowMs config"
      using Cons.prems(3) by simp
    have IH: "length bs' = length evs
       \<and> (\<forall>i<length evs. snd (evs ! i) = ip \<longrightarrow> bs' ! i)
       \<and> (\<exists>en2. rateLimitMap s' ip = Some en2 \<and> start en2 = start en \<and> count en \<le> count en2)"
      by (rule Cons.IH [OF e1 Cons.prems(2) w1 rest])
    then show ?thesis
      using False ev res by (auto simp: nth_Cons split: nat.splits)
  qed
qed

text \<open>
  C7. For one client key: without an entry, or more than \<^verbatim>\<open>rateLimitWindowMs\<close> after the
  entry's start, \<^verbatim>\<open>checkRateLimit\<close> stores \<^verbatim>\<open>{count: 1, start: now}\<close> and allows the
  request; otherwise it increments the count and denies exactly when the new count
  exceeds \<^verbatim>\<open>rateLimitMax\<close>. So of the calls made from a window's opening call on, all
  inside the window, the one with index \<open>i\<close> (the opening call has index \<open>0\<close>) is denied
  exactly when \<open>rateLimitMax \<le> i\<close>: the first \<^verbatim>\<open>rateLimitMax\<close> pass, the next one is
  denied. The first call after the window has elapsed is again an opening call.
\<close>

theorem checkRateLimit_window:
  "((rateLimitMap s ip = None
       \<or> (\<exists>en. rateLimitMap s ip = Some en \<and> now - start en > rateLimitWindowMs config))
     \<longrightarrow> checkRateLimit now ip s
           = (False, s\<lparr>rateLimitMap := (rateLimitMap s)(ip \<mapsto> \<lparr>count = 1, start = now\<rparr>)\<rparr>))
   \<and> (\<forall>en. rateLimitMap s ip = Some en \<and> \<not> now - start en > rateLimitWindowMs config
     \<longrightarrow> checkRateLimit now ip s
           = (count en + 1 > rateLimitMax config,
              s\<lparr>rateLimitMap := (rateLimitMap s)(ip \<mapsto> en\<lparr>count := count en + 1\<rparr>)\<rparr>))
   \<and> ((rateLimitMap s ip = None
         \<or> (\<exists>en. rateLimitMap s ip = Some en \<and> now - start en > rateLimitWindowMs config))
       \<and> (\<forall>t\<in>set ts. t - now \<le> rateLimitWindowMs config)
     \<longrightarrow> checkRateLimits (map (\<lambda>t. (t, ip)) (now # ts)) s
           = (map (\<lambda>i. rateLimitMax config \<le> i) [0..<Suc (length ts)],
              s\<lparr>rateLimitMap := (rateLimitMap s)(ip \<mapsto> \<lparr>count = Suc (length ts), start = now\<rparr>)\<rparr>))"
proof (intro conjI impI allI)
  assume "rateLimitMap s ip = None
       \<or> (\<exists>en. rateLimitMap s ip = Some en \<and> now - start en > rateLimitWindowMs config)"
  then show "checkRateLimit now ip s
           = (False, s\<lparr>rateLimitMap := (rateLimitMap s)(ip \<mapsto> \<lparr>count = 1, start = now\<rparr>)\<rparr>)"
    by (rule checkRateLimit_fresh)
next
  fix en
  assume "rateLimitMap s ip = Some en \<and> \<not> now - start en > rateLimitWindowMs config"
  then show "checkRateLimit now ip s
           = (count en + 1 > rateLimitMax config,
              s\<lparr>rateLimitMap := (rateLimitMap s)(ip \<mapsto> en\<lparr>count := count en + 1\<rparr>)\<rparr>)"
    by (simp add: checkRateLimit_within)
next
  assume a: "(rateLimitMap s ip = None
         \<or> (\<exists>en. rateLimitMap s ip = Some en \<and> now - start en > rateLimitWindowMs config))
       \<and> (\<forall>t\<in>set ts. t - now \<le> rateLimitWindowMs config)"
  let ?en = "\<lparr>count = 1, start = now\<rparr>"
  let ?s1 = "s\<lparr>rateLimitMap := (rateLimitMap s)(ip \<mapsto> ?en)\<rparr>"
  from a have first: "checkRateLimit now ip s = (False, ?s1)"
    by (simp add: checkRateLimit_fresh)
  have "rateLimitMap ?s1 ip = Some ?en" by simp
  moreover from a have "\<forall>t\<in>set ts. t - start ?en \<le> rateLimitWindowMs config" by simp
  ultimately have run: "checkRateLimits (map (\<lambda>t. (t, ip)) ts) ?s1
       = (map (\<lambda>i. count ?en + 1 + i > rateLimitMax config) [0..<length ts],
          ?s1\<lparr>rateLimitMap := (rateLimitMap ?s1)(ip \<mapsto> ?en\<lparr>count := count ?en + length ts\<rparr>)\<rparr>)"
    by (rule checkRateLimits_same_key)
  have run': "checkRateLimits (map (\<lambda>t. (t, ip)) ts) ?s1
       = (map (\<lambda>i. rateLimitMax config \<le> Suc i) [0..<length ts],
          s\<lparr>rateLimitMap := (rateLimitMap s)(ip \<mapsto> \<lparr>count = Suc (length ts), start = now\<rparr>)\<rparr>)"
    using run by (simp add: less_Suc_eq_le Suc_le_eq)
  show "checkRateLimits (map (\<lambda>t. (t, ip)) (now # ts)) s
           = (map (\<lambda>i. rateLimitMax config \<le> i) [0..<Suc (length ts)],
              s\<lparr>rateLimitMap := (rateLimitMap s)(ip \<mapsto> \<lparr>count = Suc (length ts), start = now\<rparr>)\<rparr>)"
    using rateLimitMax_pos
    by (simp only: list.map checkRateLimits.simps first run' Let_def prod.case)
       (simp add: map_upt_Suc del: upt_Suc)
qed

theorem checkRateLimit_window_witness:
  "fst (checkRateLimits (map (\<lambda>t. (t, ''10.0.0.7'')) (1000 # replicate 50 2000)) (initialState 0)) ! 49 = False
   \<and> fst (checkRateLimits (map (\<lambda>t. (t, ''10.0.0.7'')) (1000 # replicate 50 2000)) (initialState 0)) ! 50 = True
   \<and> fst (checkRateLimit 1000 ''10.0.0.7'' (initialState 0)) = False
   \<and> fst (checkRateLimit 9000 ''10.0.0.7'' busyState) = True
   \<and> fst (checkRateLimit 10001 ''10.0.0.7'' busyState) = False"
proof -
  have none: "rateLimitMap (initialState 0) ''10.0.0.7'' = None"
    by (simp add: initialState_def)
  have win: "\<forall>t\<in>set (replicate 50 (2000::real)). t - 1000 \<le> rateLimitWindowMs config"
    by (simp add: config_def)
  have en: "rateLimitMap busyState ''10.0.0.7'' = Some \<lparr>count = 50, start = 0\<rparr>"
    by (simp add: busyState_eq)
  have inside: "\<not> 9000 - start \<lparr>count = 50, start = 0\<rparr> > rateLimitWindowMs config"
    by (simp add: config_def)
  have after: "10001 - start \<lparr>count = 50, start = 0\<rparr> > rateLimitWindowMs config"
    by (simp add: config_def)
  have max: "rateLimitMax config = 50"
    by (simp add: config_def)
  have run: "checkRateLimits (map (\<lambda>t. (t, ''10.0.0.7'')) (1000 # replicate 50 2000)) (initialState 0)
      = (map (\<lambda>i. rateLimitMax config \<le> i) [0..<Suc (length (replicate 50 (2000::real)))],
         (initialState 0)\<lparr>rateLimitMap := (rateLimitMap (initialState 0))
            (''10.0.0.7'' \<mapsto> \<lparr>count = Suc (length (replicate 50 (2000::real))), start = 1000\<rparr>)\<rparr>)"
    using checkRateLimit_window [of "initialState 0" "''10.0.0.7''" 1000 "replicate 50 2000"] none win
    by blast
  have first: "checkRateLimit 1000 ''10.0.0.7'' (initialState 0)
      = (False, (initialState 0)\<lparr>rateLimitMap := (rateLimitMap (initialState 0))
            (''10.0.0.7'' \<mapsto> \<lparr>count = 1, start = 1000\<rparr>)\<rparr>)"
    using checkRateLimit_window [of "initialState 0" "''10.0.0.7''" 1000 "[]"] none
    by blast
  have denied: "checkRateLimit 9000 ''10.0.0.7'' busyState
      = (count \<lparr>count = 50, start = 0\<rparr> + 1 > rateLimitMax config,
         busyState\<lparr>rateLimitMap := (rateLimitMap busyState)
            (''10.0.0.7'' \<mapsto> \<lparr>count = 50, start = 0\<rparr>\<lparr>count := count \<lparr>count = 50, start = 0\<rparr> + 1\<rparr>)\<rparr>)"
    using checkRateLimit_window [of busyState "''10.0.0.7''" 9000 "[]"] en inside
    by blast
  have fresh: "checkRateLimit 10001 ''10.0.0.7'' busyState
      = (False, busyState\<lparr>rateLimitMap := (rateLimitMap busyState)
            (''10.0.0.7'' \<mapsto> \<lparr>count = 1, start = 10001\<rparr>)\<rparr>)"
    using checkRateLimit_window [of busyState "''10.0.0.7''" 10001 "[]"] en after
    by blast
  show ?thesis
    by (simp only: run first denied fresh fst_conv) (simp add: max del: upt_Suc)
qed

text \<open>
  C10. Once \<^verbatim>\<open>checkRateLimit\<close> has denied a request of a client, every later request of
  that client that arrives within \<^verbatim>\<open>rateLimitWindowMs\<close> of the entry's window start is
  denied too, whatever the other clients do in between: the count only grows and
  the window start does not move. After any such run, the first request of the
  client that arrives more than \<^verbatim>\<open>rateLimitWindowMs\<close> after the window start is
  allowed, and the entry becomes \<^verbatim>\<open>{count: 1, start: now}\<close>.
\<close>

theorem checkRateLimit_denied_until_window_ends:
  assumes "checkRateLimit now ip s = (True, s1)"
  shows "\<exists>en. rateLimitMap s1 ip = Some en
          \<and> (\<forall>evs bs s2.
                (\<forall>ev\<in>set evs. snd ev = ip \<longrightarrow> fst ev - start en \<le> rateLimitWindowMs config)
                \<and> checkRateLimits evs s1 = (bs, s2)
              \<longrightarrow> (\<forall>i<length evs. snd (evs ! i) = ip \<longrightarrow> bs ! i)
                  \<and> (\<exists>en2. rateLimitMap s2 ip = Some en2 \<and> start en2 = start en \<and> count en \<le> count en2)
                  \<and> (\<forall>t. t - start en > rateLimitWindowMs config
                        \<longrightarrow> checkRateLimit t ip s2
                              = (False, s2\<lparr>rateLimitMap := (rateLimitMap s2)(ip \<mapsto> \<lparr>count = 1, start = t\<rparr>)\<rparr>)))"
proof -
  from assms obtain en where en: "rateLimitMap s1 ip = Some en" "rateLimitMax config < count en"
    using checkRateLimit_denied_entry by blast
  have "\<forall>evs bs s2.
          (\<forall>ev\<in>set evs. snd ev = ip \<longrightarrow> fst ev - start en \<le> rateLimitWindowMs config)
          \<and> checkRateLimits evs s1 = (bs, s2)
        \<longrightarrow> (\<forall>i<length evs. snd (evs ! i) = ip \<longrightarrow> bs ! i)
            \<and> (\<exists>en2. rateLimitMap s2 ip = Some en2 \<and> start en2 = start en \<and> count en \<le> count en2)
            \<and> (\<forall>t. t - start en > rateLimitWindowMs config
                  \<longrightarrow> checkRateLimit t ip s2
                        = (False, s2\<lparr>rateLimitMap := (rateLimitMap s2)(ip \<mapsto> \<lparr>count = 1, start = t\<rparr>)\<rparr>))"
  proof (intro allI impI)
    fix evs bs s2
    assume a: "(\<forall>ev\<in>set evs. snd ev = ip \<longrightarrow> fst ev - start en \<le> rateLimitWindowMs config)
          \<and> checkRateLimits evs s1 = (bs, s2)"
    then have run: "length bs = length evs
       \<and> (\<forall>i<length evs. snd (evs ! i) = ip \<longrightarrow> bs ! i)
       \<and> (\<exists>en2. rateLimitMap s2 ip = Some en2 \<and> start en2 = start en \<and> count en \<le> count en2)"
      using checkRateLimits_denied_run [OF en(1) en(2), of evs bs s2] by blast
    then obtain en2 where en2: "rateLimitMap s2 ip = Some en2" "start en2 = start en" by blast
    have "\<forall>t. t - start en > rateLimitWindowMs config
                  \<longrightarrow> checkRateLimit t ip s2
                        = (False, s2\<lparr>rateLimitMap := (rateLimitMap s2)(ip \<mapsto> \<lparr>count = 1, start = t\<rparr>)\<rparr>)"
      using en2 by (simp add: checkRateLimit_fresh)
    with run show "(\<forall>i<length evs. snd (evs ! i) = ip \<longrightarrow> bs ! i)
            \<and> (\<exists>en2. rateLimitMap s2 ip = Some en2 \<and> start en2 = start en \<and> count en \<le> count en2)
            \<and> (\<forall>t. t - start en > rateLimitWindowMs config
                  \<longrightarrow> checkRateLimit t ip s2
                        = (False, s2\<lparr>rateLimitMap := (rateLimitMap s2)(ip \<mapsto> \<lparr>count = 1, start = t\<rparr>)\<rparr>))"
      by blast
  qed
  with en(1) show ?thesis by blast
qed

theorem checkRateLimit_denied_until_window_ends_witness:
  "checkRateLimit 9000 ''10.0.0.7'' busyState
     = (True, busyState\<lparr>rateLimitMap := [''10.0.0.7'' \<mapsto> \<lparr>count = 51, start = 0\<rparr>]\<rparr>)
   \<and> (\<exists>en. rateLimitMap (busyState\<lparr>rateLimitMap := [''10.0.0.7'' \<mapsto> \<lparr>count = 51, start = 0\<rparr>]\<rparr>)
              ''10.0.0.7'' = Some en
          \<and> (\<forall>evs bs s2.
                (\<forall>ev\<in>set evs. snd ev = ''10.0.0.7'' \<longrightarrow> fst ev - start en \<le> rateLimitWindowMs config)
                \<and> checkRateLimits evs (busyState\<lparr>rateLimitMap := [''10.0.0.7'' \<mapsto> \<lparr>count = 51, start = 0\<rparr>]\<rparr>)
                    = (bs, s2)
              \<longrightarrow> (\<forall>i<length evs. snd (evs ! i) = ''10.0.0.7'' \<longrightarrow> bs ! i)
                  \<and> (\<exists>en2. rateLimitMap s2 ''10.0.0.7'' = Some en2 \<and> start en2 = start en
                           \<and> count en \<le> count en2)
                  \<and> (\<forall>t. t - start en > rateLimitWindowMs config
                        \<longrightarrow> checkRateLimit t ''10.0.0.7'' s2
                              = (False, s2\<lparr>rateLimitMap :=
                                   (rateLimitMap s2)(''10.0.0.7'' \<mapsto> \<lparr>count = 1, start = t\<rparr>)\<rparr>))))"
proof -
  have denied: "checkRateLimit 9000 ''10.0.0.7'' busyState
     = (True, busyState\<lparr>rateLimitMap := [''10.0.0.7'' \<mapsto> \<lparr>count = 51, start = 0\<rparr>]\<rparr>)"
    by (simp add: checkRateLimit_def busyState_eq initialState_def config_def)
  show ?thesis
    using denied checkRateLimit_denied_until_window_ends [OF denied] by blast
qed

subsection \<open>Circuit breaker\<close>

lemma isCircuitBreakerOpen_CLOSED:
  "circuitBreakerState s = CLOSED \<Longrightarrow>
   isCircuitBreakerOpen now s =
     (if circuitBreakerThreshold config \<le> length (pruned now s)
      then (True, s\<lparr>errorWindow := pruned now s, circuitBreakerState := OPEN, circuitBreakerOpenTime := Some now\<rparr>)
      else (False, s\<lparr>errorWindow := pruned now s\<rparr>))"
  by (simp add: isCircuitBreakerOpen_def)

lemma isCircuitBreakerOpen_OPEN:
  "circuitBreakerState s = OPEN \<Longrightarrow>
   isCircuitBreakerOpen now s =
     (if now - toNumber (circuitBreakerOpenTime s) \<ge> circuitBreakerRecovery config
      then (False, s\<lparr>errorWindow := pruned now s, circuitBreakerState := HALF_OPEN, halfOpenAttempts := 0\<rparr>)
      else (True, s\<lparr>errorWindow := pruned now s\<rparr>))"
  by (simp add: isCircuitBreakerOpen_def)

lemma isCircuitBreakerOpen_HALF_OPEN:
  "circuitBreakerState s = HALF_OPEN \<Longrightarrow>
   isCircuitBreakerOpen now s = (False, s\<lparr>errorWindow := pruned now s\<rparr>)"
  by (simp add: isCircuitBreakerOpen_def)

lemma checkServiceAvailability_breaker:
  "circuitBreakerState (snd (checkServiceAvailability now r1 r2 s)) = circuitBreakerState s
   \<and> circuitBreakerOpenTime (snd (checkServiceAvailability now r1 r2 s)) = circuitBreakerOpenTime s
   \<and> errorWindow (snd (checkServiceAvailability now r1 r2 s)) = errorWindow s
   \<and> halfOpenAttempts (snd (checkServiceAvailability now r1 r2 s)) = halfOpenAttempts s"
  by (simp add: checkServiceAvailability_def Let_def)

lemma recordError_OPEN:
  "circuitBreakerState s = OPEN \<Longrightarrow> circuitBreakerState (recordError now s) = OPEN"
  by (simp add: recordError_def Let_def)

text \<open>
  C6. The breaker check is a transition point. While CLOSED, the check returns
  \<^verbatim>\<open>true\<close> and sets OPEN with \<^verbatim>\<open>circuitBreakerOpenTime = now\<close> exactly when the error window,
  as the check has pruned it (entries of age \<^verbatim>\<open>circuitBreakerWindow\<close> or more are dropped),
  has at least \<^verbatim>\<open>circuitBreakerThreshold\<close> entries. While OPEN with
  \<^verbatim>\<open>now - circuitBreakerOpenTime < circuitBreakerRecovery\<close> the check returns \<^verbatim>\<open>true\<close> and
  keeps the state, and a request that reaches the breaker gate is answered 503
  \<^verbatim>\<open>circuit_breaker_open\<close>. A check with
  \<^verbatim>\<open>now - circuitBreakerOpenTime >= circuitBreakerRecovery\<close> returns \<^verbatim>\<open>false\<close>, sets
  HALF_OPEN and resets \<^verbatim>\<open>halfOpenAttempts\<close> to \<open>0\<close>.
\<close>

theorem isCircuitBreakerOpen_transitions:
  "(circuitBreakerState s = CLOSED \<longrightarrow>
      isCircuitBreakerOpen now s =
        (if circuitBreakerThreshold config \<le> length (pruned now s)
         then (True, s\<lparr>errorWindow := pruned now s, circuitBreakerState := OPEN,
                       circuitBreakerOpenTime := Some now\<rparr>)
         else (False, s\<lparr>errorWindow := pruned now s\<rparr>)))
   \<and> (circuitBreakerState s = OPEN \<and> circuitBreakerOpenTime s = Some opened
        \<and> now - opened < circuitBreakerRecovery config \<longrightarrow>
      isCircuitBreakerOpen now s = (True, s\<lparr>errorWindow := pruned now s\<rparr>))
   \<and> (circuitBreakerState s = OPEN \<and> circuitBreakerOpenTime s = Some opened
        \<and> t_breaker e - opened < circuitBreakerRecovery config
        \<and> fst (checkServiceAvailability (t_availability e) (r_outage e) (r_outageDuration e) s) \<longrightarrow>
      fst (admission e s) = Some \<lparr>status = 503, error_type = Some circuit_breaker_open,
                                    payload = BreakerOpenBody OPEN\<rparr>)
   \<and> (circuitBreakerState s = OPEN \<and> circuitBreakerOpenTime s = Some opened
        \<and> now - opened \<ge> circuitBreakerRecovery config \<longrightarrow>
      isCircuitBreakerOpen now s =
        (False, s\<lparr>errorWindow := pruned now s, circuitBreakerState := HALF_OPEN, halfOpenAttempts := 0\<rparr>))"
proof (intro conjI impI)
  assume "circuitBreakerState s = CLOSED"
  then show "isCircuitBreakerOpen now s =
        (if circuitBreakerThreshold config \<le> length (pruned now s)
         then (True, s\<lparr>errorWindow := pruned now s, circuitBreakerState := OPEN,
                       circuitBreakerOpenTime := Some now\<rparr>)
         else (False, s\<lparr>errorWindow := pruned now s\<rparr>))"
    by (rule isCircuitBreakerOpen_CLOSED)
next
  assume "circuitBreakerState s = OPEN \<and> circuitBreakerOpenTime s = Some opened
        \<and> now - opened < circuitBreakerRecovery config"
  then show "isCircuitBreakerOpen now s = (True, s\<lparr>errorWindow := pruned now s\<rparr>)"
    by (simp add: isCircuitBreakerOpen_OPEN toNumber_def)
next
  assume "circuitBreakerState s = OPEN \<and> circuitBreakerOpenTime s = Some opened
        \<and> now - opened \<ge> circuitBreakerRecovery config"
  then show "isCircuitBreakerOpen now s =
        (False, s\<lparr>errorWindow := pruned now s, circuitBreakerState := HALF_OPEN, halfOpenAttempts := 0\<rparr>)"
    by (simp add: isCircuitBreakerOpen_OPEN toNumber_def)
next
  assume a: "circuitBreakerState s = OPEN \<and> circuitBreakerOpenTime s = Some opened
        \<and> t_breaker e - opened < circuitBreakerRecovery config
        \<and> fst (checkServiceAvailability (t_availability e) (r_outage e) (r_outageDuration e) s)"
  obtain av s1 where av: "checkServiceAvailability (t_availability e) (r_outage e) (r_outageDuration e) s = (av, s1)"
    by (cases "checkServiceAvailability (t_availability e) (r_outage e) (r_outageDuration e) s")
  with a have av_true: "av" by simp
  have s1: "circuitBreakerState s1 = OPEN" "circuitBreakerOpenTime s1 = Some opened"
    using checkServiceAvailability_breaker [of "t_availability e" "r_outage e" "r_outageDuration e" s] av a
    by simp_all
  with a have br: "isCircuitBreakerOpen (t_breaker e) s1 = (True, s1\<lparr>errorWindow := pruned (t_breaker e) s1\<rparr>)"
    by (simp add: isCircuitBreakerOpen_OPEN toNumber_def)
  have "circuitBreakerState (recordError (t_recordError e) (s1\<lparr>errorWindow := pruned (t_breaker e) s1\<rparr>)) = OPEN"
    using s1 by (simp add: recordError_OPEN)
  then show "fst (admission e s) = Some \<lparr>status = 503, error_type = Some circuit_breaker_open,
                                    payload = BreakerOpenBody OPEN\<rparr>"
    by (simp add: admission_def av av_true br Let_def)
qed


theorem isCircuitBreakerOpen_transitions_witness:
  "isCircuitBreakerOpen 2000 trippedState
     = (True, trippedState\<lparr>circuitBreakerState := OPEN, circuitBreakerOpenTime := Some 2000\<rparr>)
   \<and> isCircuitBreakerOpen 5000 openState = (True, openState)
   \<and> fst (admission (quietEnv 5000) openState)
       = Some \<lparr>status = 503, error_type = Some circuit_breaker_open, payload = BreakerOpenBody OPEN\<rparr>
   \<and> isCircuitBreakerOpen 22000 openState
       = (False, openState\<lparr>circuitBreakerState := HALF_OPEN, halfOpenAttempts := 0\<rparr>)"
proof -
  have closed: "circuitBreakerState trippedState = CLOSED"
    by (simp add: trippedState_eq initialState_def)
  have within: "circuitBreakerState openState = OPEN \<and> circuitBreakerOpenTime openState = Some 2000
        \<and> 5000 - 2000 < circuitBreakerRecovery config"
    by (simp add: openState_eq config_def)
  have gate: "circuitBreakerState openState = OPEN \<and> circuitBreakerOpenTime openState = Some 2000
        \<and> t_breaker (quietEnv 5000) - 2000 < circuitBreakerRecovery config
        \<and> fst (checkServiceAvailability (t_availability (quietEnv 5000)) (r_outage (quietEnv 5000))
                 (r_outageDuration (quietEnv 5000)) openState)"
    by (simp add: openState_eq trippedState_eq initialState_def config_def quietEnv_def
          checkServiceAvailability_def truthyNum_def)
  have past: "circuitBreakerState openState = OPEN \<and> circuitBreakerOpenTime openState = Some 2000
        \<and> 22000 - 2000 \<ge> circuitBreakerRecovery config"
    by (simp add: openState_eq config_def)
  have p1: "pruned 2000 trippedState = errorWindow trippedState"
    by (simp add: trippedState_eq config_def)
  have p2: "pruned 5000 openState = errorWindow openState"
    by (simp add: openState_eq trippedState_eq config_def)
  have p3: "pruned 22000 openState = errorWindow openState"
    by (simp add: openState_eq trippedState_eq config_def)
  have len: "circuitBreakerThreshold config \<le> length (errorWindow trippedState)"
    by (simp add: trippedState_eq config_def)
  note a = isCircuitBreakerOpen_transitions [where s = trippedState and now = 2000, THEN conjunct1, rule_format, OF closed]
  note b = isCircuitBreakerOpen_transitions [where s = openState and opened = 2000 and now = 5000,
                THEN conjunct2, THEN conjunct1, rule_format, OF within]
  note c = isCircuitBreakerOpen_transitions [where s = openState and opened = 2000 and e = "quietEnv 5000",
                THEN conjunct2, THEN conjunct2, THEN conjunct1, rule_format, OF gate]
  note d = isCircuitBreakerOpen_transitions [where s = openState and opened = 2000 and now = 22000,
                THEN conjunct2, THEN conjunct2, THEN conjunct2, rule_format, OF past]
  show ?thesis
    by (simp add: a b c d p1 p2 p3 len)
qed

subsection \<open>recordSuccess\<close>

lemma recordSuccess_not_HALF_OPEN:
  "circuitBreakerState s \<noteq> HALF_OPEN \<Longrightarrow>
   recordSuccess now s = s\<lparr>serviceState := (serviceState s)\<lparr>successCount := successCount (serviceState s) + 1\<rparr>\<rparr>"
  by (simp add: recordSuccess_def Let_def)

lemma recordSuccess_probe:
  "circuitBreakerState s = HALF_OPEN \<Longrightarrow> halfOpenAttempts s + 1 < circuitBreakerHalfOpenRequests config \<Longrightarrow>
   recordSuccess now s = s\<lparr>serviceState := (serviceState s)\<lparr>successCount := successCount (serviceState s) + 1\<rparr>,
                            halfOpenAttempts := halfOpenAttempts s + 1\<rparr>"
  by (simp add: recordSuccess_def Let_def)

lemma recordSuccess_close:
  "circuitBreakerState s = HALF_OPEN \<Longrightarrow> circuitBreakerHalfOpenRequests config \<le> halfOpenAttempts s + 1 \<Longrightarrow>
   recordSuccess now s = s\<lparr>serviceState := (serviceState s)\<lparr>successCount := successCount (serviceState s) + 1\<rparr>,
                            halfOpenAttempts := 0,
                            circuitBreakerState := CLOSED,
                            errorWindow := filter (\<lambda>timestamp. timestamp > now - circuitBreakerWindow config / 2)
                                             (errorWindow s)\<rparr>"
  by (simp add: recordSuccess_def Let_def)

lemma breakerRun_probing:
  "circuitBreakerState s = HALF_OPEN
   \<Longrightarrow> halfOpenAttempts s + length (filter isSuccess evs) < circuitBreakerHalfOpenRequests config
   \<Longrightarrow> circuitBreakerState (breakerRun evs s) = HALF_OPEN
       \<and> halfOpenAttempts (breakerRun evs s) = halfOpenAttempts s + length (filter isSuccess evs)
       \<and> set (errorWindow (breakerRun evs s)) \<subseteq> set (errorWindow s)"
proof (induction evs arbitrary: s)
  case Nil
  then show ?case by simp
next
  case (Cons ev evs)
  show ?case
  proof (cases ev)
    case (Check now)
    let ?s1 = "snd (isCircuitBreakerOpen now s)"
    have step: "?s1 = s\<lparr>errorWindow := pruned now s\<rparr>"
      using Cons.prems(1) by (simp add: isCircuitBreakerOpen_HALF_OPEN)
    have "circuitBreakerState ?s1 = HALF_OPEN"
      using Cons.prems(1) by (simp add: step)
    moreover have "halfOpenAttempts ?s1 + length (filter isSuccess evs) < circuitBreakerHalfOpenRequests config"
      using Cons.prems(2) Check by (simp add: step)
    ultimately have "circuitBreakerState (breakerRun evs ?s1) = HALF_OPEN
       \<and> halfOpenAttempts (breakerRun evs ?s1) = halfOpenAttempts ?s1 + length (filter isSuccess evs)
       \<and> set (errorWindow (breakerRun evs ?s1)) \<subseteq> set (errorWindow ?s1)"
      by (rule Cons.IH)
    then show ?thesis
      using Check by (auto simp: step)
  next
    case (Success now)
    let ?s1 = "recordSuccess now s"
    have step: "?s1
        = s\<lparr>serviceState := (serviceState s)\<lparr>successCount := successCount (serviceState s) + 1\<rparr>,
             halfOpenAttempts := halfOpenAttempts s + 1\<rparr>"
      using Cons.prems Success by (simp add: recordSuccess_probe)
    have "circuitBreakerState ?s1 = HALF_OPEN"
      using Cons.prems(1) by (simp add: step)
    moreover have "halfOpenAttempts ?s1 + length (filter isSuccess evs) < circuitBreakerHalfOpenRequests config"
      using Cons.prems(2) Success by (simp add: step)
    ultimately have "circuitBreakerState (breakerRun evs ?s1) = HALF_OPEN
       \<and> halfOpenAttempts (breakerRun evs ?s1) = halfOpenAttempts ?s1 + length (filter isSuccess evs)
       \<and> set (errorWindow (breakerRun evs ?s1)) \<subseteq> set (errorWindow ?s1)"
      by (rule Cons.IH)
    then show ?thesis
      using Success by (auto simp: step)
  qed
qed

text \<open>
  C2, amended. When the breaker is HALF_OPEN and \<^verbatim>\<open>recordSuccess\<close> is called
  \<^verbatim>\<open>circuitBreakerHalfOpenRequests\<close> times since it entered HALF_OPEN, with any breaker
  checks in between, the last of these calls sets the state to CLOSED and
  \<^verbatim>\<open>halfOpenAttempts\<close> to \<open>0\<close>, and it discards the \<^emph>\<open>oldest\<close> part of the error window:
  the entries with \<^verbatim>\<open>timestamp <= now - circuitBreakerWindow / 2\<close> are removed and the
  newer ones are kept. Until that call the breaker stays HALF_OPEN and the window
  gets no new entry.
\<close>

theorem recordSuccess_closes_breaker:
  assumes "circuitBreakerState s = HALF_OPEN"
    and "halfOpenAttempts s = 0"
    and "length (filter isSuccess evs) + 1 = circuitBreakerHalfOpenRequests config"
  shows "circuitBreakerState (breakerRun evs s) = HALF_OPEN
       \<and> set (errorWindow (breakerRun evs s)) \<subseteq> set (errorWindow s)
       \<and> circuitBreakerState (recordSuccess now (breakerRun evs s)) = CLOSED
       \<and> halfOpenAttempts (recordSuccess now (breakerRun evs s)) = 0
       \<and> errorWindow (recordSuccess now (breakerRun evs s))
           = filter (\<lambda>timestamp. timestamp > now - circuitBreakerWindow config / 2)
               (errorWindow (breakerRun evs s))"
proof -
  from assms have "halfOpenAttempts s + length (filter isSuccess evs) < circuitBreakerHalfOpenRequests config"
    by simp
  with assms(1) have probing: "circuitBreakerState (breakerRun evs s) = HALF_OPEN
       \<and> halfOpenAttempts (breakerRun evs s) = halfOpenAttempts s + length (filter isSuccess evs)
       \<and> set (errorWindow (breakerRun evs s)) \<subseteq> set (errorWindow s)"
    by (rule breakerRun_probing)
  with assms have "circuitBreakerHalfOpenRequests config \<le> halfOpenAttempts (breakerRun evs s) + 1"
    by simp
  with probing have "recordSuccess now (breakerRun evs s)
      = (breakerRun evs s)\<lparr>serviceState := (serviceState (breakerRun evs s))
             \<lparr>successCount := successCount (serviceState (breakerRun evs s)) + 1\<rparr>,
           halfOpenAttempts := 0,
           circuitBreakerState := CLOSED,
           errorWindow := filter (\<lambda>timestamp. timestamp > now - circuitBreakerWindow config / 2)
                            (errorWindow (breakerRun evs s))\<rparr>"
    by (simp add: recordSuccess_close)
  with probing show ?thesis by simp
qed

theorem recordSuccess_closes_breaker_witness:
  "circuitBreakerState halfOpenState = HALF_OPEN \<and> halfOpenAttempts halfOpenState = 0
   \<and> length (filter isSuccess [Success 61000, Check 62000]) + 1 = circuitBreakerHalfOpenRequests config
   \<and> errorWindow (breakerRun [Success 61000, Check 62000] halfOpenState) = [10000, 50000]
   \<and> circuitBreakerState (recordSuccess 62000 (breakerRun [Success 61000, Check 62000] halfOpenState)) = CLOSED
   \<and> halfOpenAttempts (recordSuccess 62000 (breakerRun [Success 61000, Check 62000] halfOpenState)) = 0
   \<and> errorWindow (recordSuccess 62000 (breakerRun [Success 61000, Check 62000] halfOpenState)) = [50000]"
proof -
  have h1: "circuitBreakerState halfOpenState = HALF_OPEN"
    by (simp add: halfOpenState_eq)
  have h2: "halfOpenAttempts halfOpenState = 0"
    by (simp add: halfOpenState_eq)
  have h3: "length (filter isSuccess [Success 61000, Check 62000]) + 1 = circuitBreakerHalfOpenRequests config"
    by (simp add: config_def)
  have w: "errorWindow (breakerRun [Success 61000, Check 62000] halfOpenState) = [10000, 50000]"
    by (simp add: halfOpenState_eq recordSuccess_def isCircuitBreakerOpen_def initialState_def
          config_def Let_def)
  have f: "filter (\<lambda>timestamp. timestamp > 62000 - circuitBreakerWindow config / 2) [10000, 50000 :: real]
            = [50000]"
    by (simp add: config_def)
  show ?thesis
    using recordSuccess_closes_breaker [OF h1 h2 h3, of 62000] h1 h2 h3 w f by simp
qed

text \<open>
  The claim as stated fails: with errors at \<open>10000\<close> and \<open>50000\<close> in the window
  and the breaker closing at \<open>62000\<close>, the code keeps the recent error and drops the old one; the
  spec's wording keeps the old one and drops the recent one.
\<close>

theorem recordSuccess_discards_newest_counterexample:
  "errorWindow (recordSuccess 62000 (recordSuccess 61000 halfOpenState)) = [50000]
   \<and> spec_discardNewestHalf 62000 (errorWindow halfOpenState) = [10000]
   \<and> errorWindow (recordSuccess 62000 (recordSuccess 61000 halfOpenState))
       \<noteq> spec_discardNewestHalf 62000 (errorWindow halfOpenState)"
  by (simp add: recordSuccess_def halfOpenState_eq initialState_def config_def
        spec_discardNewestHalf_def Let_def)

subsection \<open>The open time of an open breaker\<close>

lemma openTimeSet_serviceState [simp]:
  "openTimeSet (s\<lparr>serviceState := ss\<rparr>) = openTimeSet s"
  by (simp add: openTimeSet_def)

lemma openTimeSet_initialState: "openTimeSet (initialState t0)"
  by (simp add: openTimeSet_def initialState_def)

lemma openTimeSet_checkRateLimit:
  "openTimeSet s \<Longrightarrow> openTimeSet (snd (checkRateLimit now ip s))"
  by (auto simp: openTimeSet_def checkRateLimit_def split: option.splits)

lemma openTimeSet_checkServiceAvailability:
  "openTimeSet s \<Longrightarrow> openTimeSet (snd (checkServiceAvailability now r1 r2 s))"
  by (simp add: checkServiceAvailability_def Let_def)

lemma openTimeSet_isInNormalPeriod:
  "openTimeSet s \<Longrightarrow> openTimeSet (snd (isInNormalPeriod now r1 r2 s))"
  by (simp add: isInNormalPeriod_def Let_def)

lemma openTimeSet_isCircuitBreakerOpen:
  "openTimeSet s \<Longrightarrow> openTimeSet (snd (isCircuitBreakerOpen now s))"
  by (auto simp: openTimeSet_def isCircuitBreakerOpen_def Let_def split: breaker.splits)

lemma openTimeSet_recordError:
  "openTimeSet s \<Longrightarrow> openTimeSet (recordError now s)"
  by (auto simp: openTimeSet_def recordError_def Let_def)

lemma openTimeSet_recordSuccess:
  "openTimeSet s \<Longrightarrow> openTimeSet (recordSuccess now s)"
  by (auto simp: openTimeSet_def recordSuccess_def Let_def)

lemma openTimeSet_updateAverage [simp]:
  "openTimeSet (updateAverage responseTime s) = openTimeSet s"
  by (simp add: updateAverage_def Let_def)

lemma openTimeSet_reset:
  "openTimeSet (s\<lparr>circuitBreakerState := CLOSED, circuitBreakerOpenTime := None,
                  halfOpenAttempts := 0, errorWindow := []\<rparr>)"
  by (simp add: openTimeSet_def)

lemma openTimeSet_dispatch:
  "openTimeSet s \<Longrightarrow> openTimeSet (snd (dispatch e req artificialDelay inNormalPeriod s))"
  by (simp add: dispatch_def Let_def openTimeSet_reset openTimeSet_recordError split: option.splits)

lemma openTimeSet_admission:
  "openTimeSet s \<Longrightarrow> openTimeSet (snd (admission e s))"
proof -
  assume a: "openTimeSet s"
  obtain av s1 where av: "checkServiceAvailability (t_availability e) (r_outage e) (r_outageDuration e) s = (av, s1)"
    by (cases "checkServiceAvailability (t_availability e) (r_outage e) (r_outageDuration e) s")
  obtain op s2 where op: "isCircuitBreakerOpen (t_breaker e) s1 = (op, s2)"
    by (cases "isCircuitBreakerOpen (t_breaker e) s1")
  have s1: "openTimeSet s1"
    using openTimeSet_checkServiceAvailability [OF a, of "t_availability e" "r_outage e" "r_outageDuration e"] av
    by simp
  then have s2: "openTimeSet s2"
    using openTimeSet_isCircuitBreakerOpen [of s1 "t_breaker e"] op by simp
  show ?thesis
    by (simp add: admission_def av op Let_def s1 s2 openTimeSet_recordError)
qed

lemma openTimeSet_completion:
  "openTimeSet s \<Longrightarrow> openTimeSet (snd (completion e req s))"
proof -
  assume a: "openTimeSet s"
  obtain n s1 where n: "isInNormalPeriod (t_normalPeriod e) (r_normalPeriod e) (r_normalDuration e) s = (n, s1)"
    by (cases "isInNormalPeriod (t_normalPeriod e) (r_normalPeriod e) (r_normalDuration e) s")
  have s1: "openTimeSet s1"
    using openTimeSet_isInNormalPeriod [OF a, of "t_normalPeriod e" "r_normalPeriod e" "r_normalDuration e"] n
    by simp
  show ?thesis
    by (simp add: completion_def n Let_def s1 openTimeSet_recordError openTimeSet_recordSuccess
          openTimeSet_dispatch split: option.splits)
qed

lemma openTimeSet_helloHttp:
  "openTimeSet s \<Longrightarrow> openTimeSet (snd (helloHttp e req s))"
proof -
  assume a: "openTimeSet s"
  let ?s = "s\<lparr>serviceState := (serviceState s)\<lparr>requestCount := requestCount (serviceState s) + 1\<rparr>\<rparr>"
  let ?ip = "clientIp req"
  obtain l s1 where l: "checkRateLimit (t_rateLimit e) ?ip ?s = (l, s1)"
    by (cases "checkRateLimit (t_rateLimit e) ?ip ?s")
  obtain r s2 where r: "admission e s1 = (r, s2)"
    by (cases "admission e s1")
  obtain c s3 where c: "completion e req s2 = (c, s3)"
    by (cases "completion e req s2")
  have "openTimeSet ?s" using a by simp
  then have s1: "openTimeSet s1"
    using openTimeSet_checkRateLimit [of ?s "t_rateLimit e" ?ip] l by simp
  then have s2: "openTimeSet s2"
    using openTimeSet_admission [of s1 e] r by simp
  then have s3: "openTimeSet s3"
    using openTimeSet_completion [of s2 e req] c by simp
  show ?thesis
    unfolding helloHttp_def Let_def l prod.case
    using a s1 s2 s3
    by (cases r; cases c) (simp_all add: r c openTimeSet_recordError)
qed

lemma reachable_openTimeSet: "reachable s \<Longrightarrow> openTimeSet s"
proof (induction rule: reachable.induct)
  case (loaded t0)
  show ?case by (rule openTimeSet_initialState)
next
  case (rateLimitStep s now ip)
  then show ?case by (simp add: openTimeSet_checkRateLimit)
next
  case (availabilityStep s now r1 r2)
  then show ?case by (simp add: openTimeSet_checkServiceAvailability)
next
  case (normalPeriodStep s now r1 r2)
  then show ?case by (simp add: openTimeSet_isInNormalPeriod)
next
  case (breakerStep s now)
  then show ?case by (simp add: openTimeSet_isCircuitBreakerOpen)
next
  case (errorStep s now)
  then show ?case by (simp add: openTimeSet_recordError)
next
  case (successStep s now)
  then show ?case by (simp add: openTimeSet_recordSuccess)
next
  case (endpointStep s e req artificialDelay inNormalPeriod)
  then show ?case by (simp add: openTimeSet_dispatch)
next
  case (countStep s)
  then show ?case by simp
next
  case (requestStep s e req)
  then show ?case by (simp add: openTimeSet_helloHttp)
qed

lemma reachable_recordErrors:
  "reachable s \<Longrightarrow> reachable ((recordError now ^^ n) s)"
  by (induction n) (simp_all add: errorStep)

lemma reachable_checkRateLimits:
  "reachable s \<Longrightarrow> reachable (((\<lambda>s. snd (checkRateLimit now ip s)) ^^ n) s)"
  by (induction n) (simp_all add: rateLimitStep)

lemma example_states_reachable:
  "reachable busyState \<and> reachable trippedState \<and> reachable openState
   \<and> reachable halfOpenState \<and> reachable outageState \<and> reachable normalState"
  unfolding busyState_def trippedState_def openState_def halfOpenState_def outageState_def
    normalState_def
  by (intro conjI breakerStep errorStep availabilityStep normalPeriodStep
        reachable_recordErrors reachable_checkRateLimits loaded)

text \<open>
  C9. In every reachable state, a breaker that is OPEN has a non-null
  \<^verbatim>\<open>circuitBreakerOpenTime\<close>. It is the reading of the latest transition into OPEN: after
  \<^verbatim>\<open>isCircuitBreakerOpen\<close> or \<^verbatim>\<open>recordError\<close> an OPEN breaker carries the reading of that
  call if the call opened it and the earlier open time if it was open already,
  \<^verbatim>\<open>recordSuccess\<close> never opens the breaker, and the reset endpoint leaves it CLOSED.
  So \<^verbatim>\<open>now - circuitBreakerOpenTime\<close> is never computed from \<^verbatim>\<open>null\<close> while OPEN.
\<close>

theorem open_breaker_has_open_time:
  assumes "reachable s"
  shows "(circuitBreakerState s = OPEN \<longrightarrow> (\<exists>t. circuitBreakerOpenTime s = Some t))
    \<and> (circuitBreakerState (snd (isCircuitBreakerOpen now s)) = OPEN \<longrightarrow>
         circuitBreakerOpenTime (snd (isCircuitBreakerOpen now s))
           = (if circuitBreakerState s = OPEN then circuitBreakerOpenTime s else Some now))
    \<and> (circuitBreakerState (recordError now s) = OPEN \<longrightarrow>
         circuitBreakerOpenTime (recordError now s)
           = (if circuitBreakerState s = OPEN then circuitBreakerOpenTime s else Some now))
    \<and> (circuitBreakerState (recordSuccess now s) = OPEN \<longrightarrow>
         circuitBreakerState s = OPEN
         \<and> circuitBreakerOpenTime (recordSuccess now s) = circuitBreakerOpenTime s)"
proof (intro conjI)
  show "circuitBreakerState s = OPEN \<longrightarrow> (\<exists>t. circuitBreakerOpenTime s = Some t)"
    using reachable_openTimeSet [OF assms] by (simp add: openTimeSet_def)
next
  show "circuitBreakerState (snd (isCircuitBreakerOpen now s)) = OPEN \<longrightarrow>
         circuitBreakerOpenTime (snd (isCircuitBreakerOpen now s))
           = (if circuitBreakerState s = OPEN then circuitBreakerOpenTime s else Some now)"
    by (auto simp: isCircuitBreakerOpen_def Let_def split: breaker.splits if_splits)
next
  show "circuitBreakerState (recordError now s) = OPEN \<longrightarrow>
         circuitBreakerOpenTime (recordError now s)
           = (if circuitBreakerState s = OPEN then circuitBreakerOpenTime s else Some now)"
    by (auto simp: recordError_def Let_def split: if_splits)
next
  show "circuitBreakerState (recordSuccess now s) = OPEN \<longrightarrow>
         circuitBreakerState s = OPEN
         \<and> circuitBreakerOpenTime (recordSuccess now s) = circuitBreakerOpenTime s"
    by (auto simp: recordSuccess_def Let_def split: if_splits)
qed


theorem open_breaker_has_open_time_witness:
  "reachable openState \<and> circuitBreakerState openState = OPEN
   \<and> circuitBreakerOpenTime openState = Some 2000
   \<and> reachable halfOpenState \<and> circuitBreakerState halfOpenState = HALF_OPEN
   \<and> circuitBreakerState (recordError 70000 halfOpenState) = OPEN
   \<and> circuitBreakerOpenTime (recordError 70000 halfOpenState) = Some 70000"
proof -
  have r1: "reachable openState" and r2: "reachable halfOpenState"
    using example_states_reachable by simp_all
  have o: "circuitBreakerState openState = OPEN"
    by (simp add: openState_eq)
  have t: "circuitBreakerOpenTime openState = Some 2000"
    by (simp add: openState_eq)
  have h: "circuitBreakerState halfOpenState = HALF_OPEN"
      "circuitBreakerState (recordError 70000 halfOpenState) = OPEN"
    by (simp_all add: halfOpenState_eq recordError_def Let_def)
  show ?thesis
    using open_breaker_has_open_time [OF r1, of 70000]
      open_breaker_has_open_time [OF r2, of 70000] r1 r2 o t h
    by simp
qed

subsection \<open>Outage scheduler\<close>

lemma outage_started_end_positive:
  "0 \<le> now \<Longrightarrow> 0 \<le> r2 \<Longrightarrow> checkServiceAvailability now r1 r2 s = (False, s1)
   \<Longrightarrow> outageEndTime (serviceState s1) \<noteq> outageEndTime (serviceState s)
   \<Longrightarrow> \<exists>until. outageEndTime (serviceState s1) = Some until \<and> 0 < until"
  by (auto simp: checkServiceAvailability_def Let_def config_def split: if_splits)

text \<open>
  C8, amended. Once an outage end time is set, every call with \<^verbatim>\<open>now\<close> before that
  end time returns \<^verbatim>\<open>false\<close> and changes nothing, whatever the draws would be. The first
  call at or after the end time clears the window (\<^verbatim>\<open>outageEndTime\<close> and
  \<^verbatim>\<open>lastOutageStart\<close> null, \<^verbatim>\<open>isHealthy\<close> true) and then makes the draw for a new outage in
  the same call: it returns \<^verbatim>\<open>true\<close> unless that draw is below \<^verbatim>\<open>outageChance\<close>, in which
  case it starts a new outage and returns \<^verbatim>\<open>false\<close>. After a call that returned \<^verbatim>\<open>true\<close>,
  every call whose draw is not below \<^verbatim>\<open>outageChance\<close> returns \<^verbatim>\<open>true\<close> and changes nothing.
  The end times the code sets from non-negative clock readings are positive.
\<close>

theorem outage_window:
  assumes "outageEndTime (serviceState s) = Some until" and "0 < until"
  shows "(now < until \<longrightarrow> checkServiceAvailability now r1 r2 s = (False, s))
    \<and> (until \<le> now \<and> \<not> r1 < outageChance config \<longrightarrow>
         checkServiceAvailability now r1 r2 s = (True, outageCleared s))
    \<and> (until \<le> now \<and> r1 < outageChance config \<longrightarrow>
         checkServiceAvailability now r1 r2 s
           = (False, s\<lparr>serviceState := (serviceState s)
                \<lparr>isHealthy := False, lastOutageStart := Some now,
                   outageEndTime := Some (now + (r2 * (maxOutageDuration config - minOutageDuration config)
                                                + minOutageDuration config))\<rparr>\<rparr>))
    \<and> (\<not> r1' < outageChance config \<longrightarrow>
         checkServiceAvailability now' r1' r2' (outageCleared s) = (True, outageCleared s))"
  using assms
  by (simp add: checkServiceAvailability_def outageCleared_def truthyNum_def toNumber_def Let_def)

theorem outage_window_witness:
  "outageEndTime (serviceState outageState) = Some 31000
   \<and> checkServiceAvailability 30999 (1 / 20000) (1 / 2) outageState = (False, outageState)
   \<and> checkServiceAvailability 31001 (1 / 2) (1 / 2) outageState = (True, outageCleared outageState)
   \<and> checkServiceAvailability 40000 (1 / 2) (1 / 2) (outageCleared outageState)
       = (True, outageCleared outageState)"
proof -
  have h: "outageEndTime (serviceState outageState) = Some 31000"
    by (simp add: outageState_def checkServiceAvailability_def initialState_def config_def
          truthyNum_def Let_def)
  have pos: "(0::real) < 31000" by simp
  have c: "\<not> (1 / 2 :: real) < outageChance config" by (simp add: config_def)
  show ?thesis
    using outage_window [OF h pos, of 30999 "1 / 20000" "1 / 2" "1 / 2" 40000 "1 / 2"]
      outage_window [OF h pos, of 31001 "1 / 2" "1 / 2" "1 / 2" 40000 "1 / 2"] h c
    by simp
qed

text \<open>
  The claim as stated fails: the call that finds the outage over makes the draw for
  a new outage itself. Here the outage ends at \<open>31000\<close>; the first call after it,
  at \<open>32000\<close>, draws \<open>0.00005 < outageChance\<close>, returns \<^verbatim>\<open>false\<close> and leaves an outage
  end time set.
\<close>

theorem outage_first_call_after_end_counterexample:
  "fst (checkServiceAvailability 1000 (1 / 20000) (1 / 2) (initialState 0)) = False
   \<and> outageEndTime (serviceState outageState) = Some 31000
   \<and> fst (checkServiceAvailability 32000 (1 / 20000) (1 / 2) outageState) = False
   \<and> outageEndTime (serviceState (snd (checkServiceAvailability 32000 (1 / 20000) (1 / 2) outageState)))
       = Some 62000"
  by (simp add: outageState_def checkServiceAvailability_def initialState_def config_def
        truthyNum_def toNumber_def Let_def)

lemmas handler_defs =
  helloHttp_def admission_def completion_def dispatch_def checkRateLimit_def
  checkServiceAvailability_def isCircuitBreakerOpen_def isInNormalPeriod_def
  recordError_def recordSuccess_def simulateError_def addDelay_def updateAverage_def
  errorResponse_def orElse_def clientIp_def requestPath_def requestData_def truthyNum_def toNumber_def Let_def

lemmas example_defs =
  quietEnv_def initialState_def config_def trippedState_eq openState_eq
  optionsRequest_def resetRequest_def helloWithoutName_def healthRequest_def

subsection \<open>The handler, by cases\<close>

lemma helloHttp_cases:
  assumes "checkRateLimit (t_rateLimit e) (clientIp req)
             (s\<lparr>serviceState := (serviceState s)\<lparr>requestCount := requestCount (serviceState s) + 1\<rparr>\<rparr>)
           = (limited, s1)"
    and "admission e s1 = (rejected, s2)"
    and "completion e req s2 = (outcome, s3)"
  shows "helloHttp e req s =
     (if httpMethod req = ''OPTIONS''
      then (\<lparr>status = 204, error_type = None, payload = EmptyBody\<rparr>,
            s\<lparr>serviceState := (serviceState s)\<lparr>requestCount := requestCount (serviceState s) + 1\<rparr>\<rparr>)
      else if limited then (errorResponse 429 rate_limit, recordError (t_recordError e) s1)
      else case rejected of
             Some resp \<Rightarrow> (resp, s2)
           | None \<Rightarrow>
               (case outcome of
                  Inr resp \<Rightarrow> (resp, s3)
                | Inl _ \<Rightarrow> (errorResponse 500 unexpected_error, recordError (t_recordError e) s3)))"
  unfolding helloHttp_def Let_def assms(1) prod.case
  by (cases rejected; cases outcome) (simp_all add: assms(2,3))

lemma completion_cases:
  assumes "isInNormalPeriod (t_normalPeriod e) (r_normalPeriod e) (r_normalDuration e) s = (inNormalPeriod, s1)"
  shows "completion e req s =
     (if inNormalPeriod
      then dispatch e req (addDelay (r_slow e) (r_slowDelay e)) True (recordSuccess (t_recordSuccess e) s1)
      else case simulateError (r_simulateError e) of
             Some (code, msg, k) \<Rightarrow> (Inr (errorResponse code k), recordError (t_recordError e) s1)
           | None \<Rightarrow>
               if r_drop e > baseSuccessRate config
               then (Inr (errorResponse 504 network_failure), recordError (t_recordError e) s1)
               else dispatch e req (addDelay (r_slow e) (r_slowDelay e)) False
                      (recordSuccess (t_recordSuccess e) s1))"
  unfolding completion_def Let_def assms prod.case
  by (cases inNormalPeriod) (simp_all split: option.splits)

lemma simulateError_kinds:
  "simulateError r = Some (code, msg, k) \<Longrightarrow> k \<in> {server_error, client_error, timeout}"
  by (auto simp: simulateError_def split: if_splits)

subsection \<open>Counters\<close>

lemma counters_checkRateLimit: "counters (snd (checkRateLimit now ip s)) = counters s"
  by (auto simp: counters_def checkRateLimit_def split: option.splits)

lemma counters_checkServiceAvailability:
  "counters (snd (checkServiceAvailability now r1 r2 s)) = counters s"
  by (simp add: counters_def checkServiceAvailability_def Let_def)

lemma counters_isInNormalPeriod: "counters (snd (isInNormalPeriod now r1 r2 s)) = counters s"
  by (simp add: counters_def isInNormalPeriod_def Let_def)

lemma counters_isCircuitBreakerOpen: "counters (snd (isCircuitBreakerOpen now s)) = counters s"
  by (simp add: counters_def isCircuitBreakerOpen_def Let_def split: breaker.splits)

lemma counters_recordError:
  "counters (recordError now s) = (case counters s of (n, ok, bad) \<Rightarrow> (n, ok, bad + 1))"
  by (simp add: counters_def recordError_def Let_def)

lemma counters_recordSuccess:
  "counters (recordSuccess now s) = (case counters s of (n, ok, bad) \<Rightarrow> (n, ok + 1, bad))"
  by (simp add: counters_def recordSuccess_def Let_def)

lemma counters_updateAverage: "counters (updateAverage rt s) = counters s"
  by (simp add: counters_def updateAverage_def Let_def)

lemma counters_admission:
  "counters (snd (admission e s)) =
     (case fst (admission e s) of
        None \<Rightarrow> counters s
      | Some resp \<Rightarrow> (case counters s of (n, ok, bad) \<Rightarrow> (n, ok, bad + 1)))"
proof -
  obtain av s1 where av: "checkServiceAvailability (t_availability e) (r_outage e) (r_outageDuration e) s = (av, s1)"
    by (cases "checkServiceAvailability (t_availability e) (r_outage e) (r_outageDuration e) s")
  obtain op s2 where op: "isCircuitBreakerOpen (t_breaker e) s1 = (op, s2)"
    by (cases "isCircuitBreakerOpen (t_breaker e) s1")
  have s1: "counters s1 = counters s"
    using counters_checkServiceAvailability [of "t_availability e" "r_outage e" "r_outageDuration e" s] av
    by simp
  have s2: "counters s2 = counters s"
    using counters_isCircuitBreakerOpen [of "t_breaker e" s1] op s1 by simp
  show ?thesis
    by (simp add: admission_def av op Let_def s1 s2 counters_recordError)
qed

lemma admission_rejection_kinds:
  "fst (admission e s) = Some resp \<Longrightarrow>
   error_type resp = Some service_unavailable \<or> error_type resp = Some circuit_breaker_open"
  by (auto simp: admission_def Let_def errorResponse_def split: prod.splits if_splits)

lemma counters_dispatch:
  "counters (snd (dispatch e req d n s)) =
     (case fst (dispatch e req d n s) of
        Inl _ \<Rightarrow> counters s
      | Inr resp \<Rightarrow> if error_type resp = None then counters s
                    else (case counters s of (n, ok, bad) \<Rightarrow> (n, ok, bad + 1)))"
  by (simp add: dispatch_def Let_def counters_recordError counters_updateAverage errorResponse_def
        counters_def [of "s\<lparr>circuitBreakerState := CLOSED, circuitBreakerOpenTime := None,
                              halfOpenAttempts := 0, errorWindow := []\<rparr>"]
        counters_def [of s]
      split: option.splits)

lemma dispatch_error_kinds:
  "fst (dispatch e req d n s) = Inr resp \<Longrightarrow> error_type resp \<noteq> None
   \<Longrightarrow> error_type resp = Some validation_error"
  by (auto simp: dispatch_def Let_def errorResponse_def split: option.splits if_splits)


lemma counters_completion:
  "counters (snd (completion e req s)) =
     (case counters s of (n, ok, bad) \<Rightarrow>
        (case fst (completion e req s) of
           Inl _ \<Rightarrow> (n, ok + 1, bad)
         | Inr resp \<Rightarrow>
             if error_type resp = None then (n, ok + 1, bad)
             else if error_type resp = Some validation_error then (n, ok + 1, bad + 1)
             else (n, ok, bad + 1)))"
proof -
  obtain np s1 where np: "isInNormalPeriod (t_normalPeriod e) (r_normalPeriod e) (r_normalDuration e) s = (np, s1)"
    by (cases "isInNormalPeriod (t_normalPeriod e) (r_normalPeriod e) (r_normalDuration e) s")
  obtain n ok bad where c: "counters s = (n, ok, bad)"
    by (cases "counters s")
  have s1: "counters s1 = (n, ok, bad)"
    using counters_isInNormalPeriod [of "t_normalPeriod e" "r_normalPeriod e" "r_normalDuration e" s] np c
    by simp
  have ok1: "counters (recordSuccess (t_recordSuccess e) s1) = (n, ok + 1, bad)"
    by (simp add: counters_recordSuccess s1)
  have bad1: "counters (recordError (t_recordError e) s1) = (n, ok, bad + 1)"
    by (simp add: counters_recordError s1)
  have d: "counters (snd (dispatch e req d b (recordSuccess (t_recordSuccess e) s1))) =
     (case fst (dispatch e req d b (recordSuccess (t_recordSuccess e) s1)) of
        Inl _ \<Rightarrow> (n, ok + 1, bad)
      | Inr resp \<Rightarrow>
          if error_type resp = None then (n, ok + 1, bad)
          else if error_type resp = Some validation_error then (n, ok + 1, bad + 1)
          else (n, ok, bad + 1))" for d b
    using dispatch_error_kinds [of e req d b "recordSuccess (t_recordSuccess e) s1"]
    by (simp add: counters_dispatch ok1 split: sum.splits)
  show ?thesis
    unfolding completion_cases [OF np] c prod.case
    using simulateError_kinds [of "r_simulateError e"]
    by (auto simp: d bad1 errorResponse_def split: option.splits)
qed

lemma completion_error_kinds:
  "fst (completion e req s) = Inr resp \<Longrightarrow> error_type resp \<noteq> None \<Longrightarrow>
   error_type resp \<in> Some ` {server_error, client_error, timeout, network_failure, validation_error}"
proof -
  assume a: "fst (completion e req s) = Inr resp" "error_type resp \<noteq> None"
  obtain np s1 where np: "isInNormalPeriod (t_normalPeriod e) (r_normalPeriod e) (r_normalDuration e) s = (np, s1)"
    by (cases "isInNormalPeriod (t_normalPeriod e) (r_normalPeriod e) (r_normalDuration e) s")
  show ?thesis
    using a simulateError_kinds [of "r_simulateError e"]
      dispatch_error_kinds [of e req _ _ "recordSuccess (t_recordSuccess e) s1" resp]
    unfolding completion_cases [OF np]
    by (auto simp: errorResponse_def split: option.splits if_splits)
qed

text \<open>
  C4, amended. Every request increases \<^verbatim>\<open>requestCount\<close> by one, so it never decreases.
  An OPTIONS request changes neither \<^verbatim>\<open>successCount\<close> nor \<^verbatim>\<open>errorCount\<close>. Any other request
  answered without an error increases \<^verbatim>\<open>successCount\<close> by one and leaves \<^verbatim>\<open>errorCount\<close>;
  one answered \<^verbatim>\<open>rate_limit\<close>, \<^verbatim>\<open>service_unavailable\<close>, \<^verbatim>\<open>circuit_breaker_open\<close>,
  \<^verbatim>\<open>server_error\<close>, \<^verbatim>\<open>client_error\<close>, \<^verbatim>\<open>timeout\<close> or \<^verbatim>\<open>network_failure\<close> increases
  \<^verbatim>\<open>errorCount\<close> by one and leaves \<^verbatim>\<open>successCount\<close>. So over requests with these
  outcomes \<^verbatim>\<open>requestCount - (successCount + errorCount)\<close> grows by one with each OPTIONS
  request and not otherwise.
\<close>

theorem request_counters:
  assumes "helloHttp e req s = (resp, s')"
  shows "requestCount (serviceState s') = requestCount (serviceState s) + 1
    \<and> (httpMethod req = ''OPTIONS'' \<longrightarrow>
         successCount (serviceState s') = successCount (serviceState s)
         \<and> errorCount (serviceState s') = errorCount (serviceState s))
    \<and> (httpMethod req \<noteq> ''OPTIONS'' \<and> error_type resp = None \<longrightarrow>
         successCount (serviceState s') = successCount (serviceState s) + 1
         \<and> errorCount (serviceState s') = errorCount (serviceState s))
    \<and> (httpMethod req \<noteq> ''OPTIONS''
         \<and> error_type resp \<in> Some ` {rate_limit, service_unavailable, circuit_breaker_open,
                                        server_error, client_error, timeout, network_failure} \<longrightarrow>
         successCount (serviceState s') = successCount (serviceState s)
         \<and> errorCount (serviceState s') = errorCount (serviceState s) + 1)"
proof -
  let ?s0 = "s\<lparr>serviceState := (serviceState s)\<lparr>requestCount := requestCount (serviceState s) + 1\<rparr>\<rparr>"
  let ?ip = "clientIp req"
  obtain limited s1 where l: "checkRateLimit (t_rateLimit e) ?ip ?s0 = (limited, s1)"
    by (cases "checkRateLimit (t_rateLimit e) ?ip ?s0")
  obtain rejected s2 where r: "admission e s1 = (rejected, s2)"
    by (cases "admission e s1")
  obtain outcome s3 where c: "completion e req s2 = (outcome, s3)"
    by (cases "completion e req s2")
  obtain n ok bad where cs: "counters s = (n, ok, bad)"
    by (cases "counters s")
  have c0: "counters ?s0 = (n + 1, ok, bad)"
    using cs by (simp add: counters_def)
  have c1: "counters s1 = (n + 1, ok, bad)"
    using counters_checkRateLimit [of "t_rateLimit e" ?ip ?s0] l c0 by simp
  have c2: "counters s2 = (case rejected of None \<Rightarrow> (n + 1, ok, bad) | Some _ \<Rightarrow> (n + 1, ok, bad + 1))"
    using counters_admission [of e s1] r c1 by (simp split: option.splits)
  have c3: "rejected = None \<Longrightarrow> counters s3 =
        (case outcome of
           Inl _ \<Rightarrow> (n + 1, ok + 1, bad)
         | Inr resp \<Rightarrow>
             if error_type resp = None then (n + 1, ok + 1, bad)
             else if error_type resp = Some validation_error then (n + 1, ok + 1, bad + 1)
             else (n + 1, ok, bad + 1))"
    using counters_completion [of e req s2] c c2 by (simp split: sum.splits)
  have rk: "rejected = Some x \<Longrightarrow>
      error_type x = Some service_unavailable \<or> error_type x = Some circuit_breaker_open" for x
    using admission_rejection_kinds [of e s1 x] r by simp
  have ck: "outcome = Inr x \<Longrightarrow> error_type x \<noteq> None \<Longrightarrow>
      error_type x \<in> Some ` {server_error, client_error, timeout, network_failure, validation_error}" for x
    using completion_error_kinds [of e req s2 x] c by simp
  have final: "counters s' = (requestCount (serviceState s'), successCount (serviceState s'),
      errorCount (serviceState s'))"
    by (simp add: counters_def)
  have start: "requestCount (serviceState s) = n \<and> successCount (serviceState s) = ok
      \<and> errorCount (serviceState s) = bad"
    using cs by (simp add: counters_def)
  show ?thesis
  proof (cases "httpMethod req = ''OPTIONS''")
    case True
    then have "s' = ?s0" using assms helloHttp_cases [OF l r c] by simp
    then show ?thesis using True start by simp
  next
    case notOptions: False
    show ?thesis
    proof (cases limited)
      case True
      then have "resp = errorResponse 429 rate_limit" "s' = recordError (t_recordError e) s1"
        using assms helloHttp_cases [OF l r c] notOptions by simp_all
      then show ?thesis
        using final start c1 notOptions by (simp add: counters_recordError errorResponse_def)
    next
      case notLimited: False
      show ?thesis
      proof (cases rejected)
        case (Some x)
        then have "resp = x" "s' = s2"
          using assms helloHttp_cases [OF l r c] notOptions notLimited by simp_all
        then show ?thesis
          using final start c2 Some rk [OF Some] notOptions by auto
      next
        case None
        show ?thesis
        proof (cases outcome)
          case (Inl u)
          then have "resp = errorResponse 500 unexpected_error" "s' = recordError (t_recordError e) s3"
            using assms helloHttp_cases [OF l r c] notOptions notLimited None by simp_all
          then show ?thesis
            using final start c3 [OF None] Inl notOptions
            by (simp add: counters_recordError errorResponse_def)
        next
          case (Inr x)
          then have "resp = x" "s' = s3"
            using assms helloHttp_cases [OF l r c] notOptions notLimited None by simp_all
          then show ?thesis
            using final start c3 [OF None] Inr ck [OF Inr] notOptions
            by (auto split: if_splits)
        qed
      qed
    qed
  qed
qed

theorem request_counters_witness:
  "counters (initialState 0) = (0, 0, 0)
   \<and> counters (snd (helloHttp (quietEnv 5000) optionsRequest (initialState 0))) = (1, 0, 0)
   \<and> counters (snd (helloHttp (quietEnv 5000) healthRequest (initialState 0))) = (1, 1, 0)
   \<and> counters openState = (0, 0, 15)
   \<and> counters (snd (helloHttp (quietEnv 5000) resetRequest openState)) = (1, 0, 16)"
proof -
  have m: "httpMethod optionsRequest = ''OPTIONS''" "httpMethod healthRequest \<noteq> ''OPTIONS''"
      "httpMethod resetRequest \<noteq> ''OPTIONS''"
    by (simp_all add: example_defs)
  have ok: "error_type (fst (helloHttp (quietEnv 5000) healthRequest (initialState 0))) = None"
    by (simp add: handler_defs example_defs)
  have bad: "error_type (fst (helloHttp (quietEnv 5000) resetRequest openState)) = Some circuit_breaker_open"
    by (simp add: handler_defs example_defs)
  have c0: "counters (initialState 0) = (0, 0, 0)" "counters openState = (0, 0, 15)"
    by (simp_all add: counters_def example_defs)
  show ?thesis
    using request_counters [OF surjective_pairing, of "quietEnv 5000" optionsRequest "initialState 0"]
      request_counters [OF surjective_pairing, of "quietEnv 5000" healthRequest "initialState 0"]
      request_counters [OF surjective_pairing, of "quietEnv 5000" resetRequest openState]
      m ok bad c0
    by (simp add: counters_def)
qed

text \<open>
  The claim as stated fails: an OPTIONS request is counted and then answered before
  anything records a success or an error. From the loaded state the counters are
  \<open>1\<close>, \<open>0\<close>, \<open>0\<close> after it.
\<close>

theorem options_breaks_count_equation_counterexample:
  "requestCount (serviceState (initialState 0))
     = successCount (serviceState (initialState 0)) + errorCount (serviceState (initialState 0))
   \<and> requestCount (serviceState (snd (helloHttp (quietEnv 5000) optionsRequest (initialState 0))))
     \<noteq> successCount (serviceState (snd (helloHttp (quietEnv 5000) optionsRequest (initialState 0))))
       + errorCount (serviceState (snd (helloHttp (quietEnv 5000) optionsRequest (initialState 0))))"
  by (simp add: helloHttp_def optionsRequest_def initialState_def)

subsection \<open>The reset endpoint\<close>





subsection \<open>The error window across a request\<close>




lemma windowKept_subset: "windowKept s s' \<Longrightarrow> set (errorWindow s') \<subseteq> set (errorWindow s)"
  unfolding windowKept_def by auto















subsection \<open>Requests in a normal period\<close>





end
